theory Spec2Isabelle
  imports Complex_Main
begin

section \<open>Tensors and the runtime's primitives\<close>

text \<open>
  The module \<^verbatim>\<open>biomedical_qa/tfutil.py\<close> assembles calls to the primitives of a
  dataflow runtime. A vector is a list, a matrix a list of rows. A rank-3 tensor
  carries its shape, because \<^verbatim>\<open>tf.shape\<close> is read by the code and a nested list
  with an empty outer axis no longer tells its inner sizes. Floating-point cells
  are real numbers, except in the mask, whose float32 product can be NaN. Index
  and shape values are integers; where the source computes in int32 or narrows
  an int64 value with \<^verbatim>\<open>tf.cast(_, tf.int32)\<close>, the wrap-around to 32 bits is
  written out. A call that the runtime rejects is the value \<open>Inl\<close> of a sum.
\<close>

datatype error = InvalidArgument | AssertionFailed | IndexError

record 'a tensor3 =
  dim1 :: nat
  dim2 :: nat
  dim3 :: nat
  cells :: "'a list list list"

definition well_formed3 :: "'a tensor3 \<Rightarrow> bool" where
  "well_formed3 t \<longleftrightarrow>
     length (cells t) = dim1 t \<and>
     list_all (\<lambda>p. length p = dim2 t \<and> list_all (\<lambda>r. length r = dim3 t) p) (cells t)"

text \<open>\<^verbatim>\<open>tf.shape\<close> of a rank-3 tensor.\<close>

definition tf_shape :: "'a tensor3 \<Rightarrow> int list" where
  "tf_shape t = [int (dim1 t), int (dim2 t), int (dim3 t)]"

text \<open>\<^verbatim>\<open>tf.range(start, limit)\<close>: the runtime requires \<open>start \<le> limit\<close>.\<close>

definition tf_range :: "int \<Rightarrow> int \<Rightarrow> error + int list" where
  "tf_range start limit =
     (if limit < start then Inl InvalidArgument else Inr [start..limit - 1])"

text \<open>
  An elementwise binary operation on two vectors: equal lengths, or one operand of
  length one that is broadcast; any other pair of shapes is rejected.
\<close>

definition broadcast_op :: "('a \<Rightarrow> 'b \<Rightarrow> 'c) \<Rightarrow> 'a list \<Rightarrow> 'b list \<Rightarrow> error + 'c list" where
  "broadcast_op f xs ys =
     (if length xs = length ys then Inr (map2 f xs ys)
      else if length xs = 1 then Inr (map (f (hd xs)) ys)
      else if length ys = 1 then Inr (map (\<lambda>x. f x (hd ys)) xs)
      else Inl InvalidArgument)"

text \<open>
  \<^verbatim>\<open>tf.gather(params, indices)\<close> along the first axis: every index has to lie in
  \<open>[0, length params)\<close>, otherwise the call fails.
\<close>

definition tf_gather :: "'a list \<Rightarrow> int list \<Rightarrow> error + 'a list" where
  "tf_gather params indices =
     (if list_all (\<lambda>i. 0 \<le> i \<and> i < int (length params)) indices
      then Inr (map (\<lambda>i. params ! nat i) indices)
      else Inl InvalidArgument)"

text \<open>
  An int32 value keeps the low 32 bits of the exact result, read in two's
  complement: so does \<^verbatim>\<open>tf.cast(x, tf.int32)\<close> of an int64 value, and so do the sum,
  the difference and the product of two int32 tensors. \<^verbatim>\<open>tf.shape\<close> yields int32
  values, and so does \<^verbatim>\<open>tf.range\<close> of them.
\<close>

definition cast_int32 :: "int \<Rightarrow> int" where
  "cast_int32 x = (x + 2 ^ 31) mod 2 ^ 32 - 2 ^ 31"

definition int32_times :: "int \<Rightarrow> int \<Rightarrow> int" where
  "int32_times a b = cast_int32 (a * b)"

definition int32_plus :: "int \<Rightarrow> int \<Rightarrow> int" where
  "int32_plus a b = cast_int32 (a + b)"

definition int32_minus :: "int \<Rightarrow> int \<Rightarrow> int" where
  "int32_minus a b = cast_int32 (a - b)"

text \<open>
  With int32 indices \<^verbatim>\<open>tf.gather\<close> first requires that the gathered axis can be
  indexed in int32: more than \<open>2^31 - 1\<close> slices are rejected.
\<close>

definition tf_gather_int32 :: "'a list \<Rightarrow> int list \<Rightarrow> error + 'a list" where
  "tf_gather_int32 params indices =
     (if 2 ^ 31 - 1 < int (length params) then Inl InvalidArgument
      else tf_gather params indices)"

text \<open>\<^verbatim>\<open>tf.reshape(tensor, [-1, dim3])\<close> merges the first two axes of a rank-3 tensor.\<close>

definition tf_reshape_rows :: "'a tensor3 \<Rightarrow> 'a list list" where
  "tf_reshape_rows t = concat (cells t)"

text \<open>
  \<^verbatim>\<open>tf.slice(tensor, begin, size)\<close> on a rank-3 tensor. A size of \<open>-1\<close> stands for
  everything that remains on the axis; the runtime requires
  \<open>0 \<le> begin\<close> and \<open>begin + size \<le> dim\<close> on each axis.
\<close>

definition slice_extent :: "int \<Rightarrow> int \<Rightarrow> nat \<Rightarrow> int" where
  "slice_extent b s d = (if s = - 1 then int d - b else s)"

definition slice_ok :: "int \<Rightarrow> int \<Rightarrow> nat \<Rightarrow> bool" where
  "slice_ok b s d \<longleftrightarrow> 0 \<le> b \<and> 0 \<le> slice_extent b s d \<and> b + slice_extent b s d \<le> int d"

definition slice_axis :: "int \<Rightarrow> int \<Rightarrow> nat \<Rightarrow> 'a list \<Rightarrow> 'a list" where
  "slice_axis b s d xs = take (nat (slice_extent b s d)) (drop (nat b) xs)"

definition tf_slice :: "'a tensor3 \<Rightarrow> int list \<Rightarrow> int list \<Rightarrow> error + 'a tensor3" where
  "tf_slice t start extent =
     (if length start = 3 \<and> length extent = 3 \<and>
         slice_ok (start ! 0) (extent ! 0) (dim1 t) \<and>
         slice_ok (start ! 1) (extent ! 1) (dim2 t) \<and>
         slice_ok (start ! 2) (extent ! 2) (dim3 t)
      then Inr \<lparr>dim1 = nat (slice_extent (start ! 0) (extent ! 0) (dim1 t)),
                dim2 = nat (slice_extent (start ! 1) (extent ! 1) (dim2 t)),
                dim3 = nat (slice_extent (start ! 2) (extent ! 2) (dim3 t)),
                cells = map (\<lambda>p. map (slice_axis (start ! 2) (extent ! 2) (dim3 t))
                                    (slice_axis (start ! 1) (extent ! 1) (dim2 t) p))
                          (slice_axis (start ! 0) (extent ! 0) (dim1 t) (cells t))\<rparr>
      else Inl InvalidArgument)"

text \<open>\<^verbatim>\<open>tf.squeeze(tensor, [1])\<close>: the second axis must have size one and is dropped.\<close>

definition tf_squeeze_axis1 :: "'a tensor3 \<Rightarrow> error + 'a list list" where
  "tf_squeeze_axis1 t =
     (if dim2 t = 1 then Inr (map hd (cells t)) else Inl InvalidArgument)"

section \<open>Row and slice indexing\<close>

text \<open>
  \<^verbatim>\<open>
  def get_by_index(tensor, index):
      dim1, dim2, dim3 = tf.unpack(tf.shape(tensor))
      flat_index = tf.range(0, dim1) * dim2 + (index - 1)
      return tf.gather(tf.reshape(tensor, [-1, dim3]), flat_index)
  \<close>
  The shape is int32, so \<open>index\<close> is an int32 vector and the flat index is computed
  in int32.
\<close>

definition get_by_index :: "'a tensor3 \<Rightarrow> int list \<Rightarrow> error + 'a list list" where
  "get_by_index tensor index =
     (case tf_range 0 (tf_shape tensor ! 0) of
        Inl e \<Rightarrow> Inl e
      | Inr rows \<Rightarrow>
          (case broadcast_op int32_plus
                  (map (\<lambda>r. int32_times r (tf_shape tensor ! 1)) rows)
                  (map (\<lambda>i. int32_minus i 1) index) of
             Inl e \<Rightarrow> Inl e
           | Inr flat_index \<Rightarrow> tf_gather_int32 (tf_reshape_rows tensor) flat_index))"

text \<open>
  \<^verbatim>\<open>
  def get_last(tensor):
      shape = tf.shape(tensor)  # [dim1, dim2, dim3]
      slice_size = shape * [1, 0, 1] + [0, 1, 0]  # [dim1, 1 , dim3]
      slice_begin = shape * [0, 1, 0] + [0, -1, 0]  # [1, dim2-1, 1]
      return tf.squeeze(tf.slice(tensor, slice_begin, slice_size), [1])
  \<close>
\<close>

definition get_last :: "'a tensor3 \<Rightarrow> error + 'a list list" where
  "get_last tensor =
     (let shape = tf_shape tensor;
          slice_size = map2 (+) (map2 (*) shape [1, 0, 1]) [0, 1, 0];
          slice_begin = map2 (+) (map2 (*) shape [0, 1, 0]) [0, - 1, 0]
      in case tf_slice tensor slice_begin slice_size of
           Inl e \<Rightarrow> Inl e
         | Inr s \<Rightarrow> tf_squeeze_axis1 s)"

section \<open>Masking\<close>

text \<open>
  \<^verbatim>\<open>tf.reduce_max\<close> of an int64 vector starts from the lowest int64 value, which is
  its result on an empty vector.
\<close>

definition reduce_max_int64 :: "int list \<Rightarrow> int" where
  "reduce_max_int64 xs = fold max xs (- (2 ^ 63))"




text \<open>
  A float32 value is a finite number, an infinity or NaN; the two zeros are not
  told apart. \<^verbatim>\<open>tf.cast(flag, tf.float32)\<close> is \<open>1.0\<close> or \<open>0.0\<close>, and its product
  with a float32 value is exact: \<open>1.0 * v\<close> is \<open>v\<close>, and \<open>0.0 * v\<close> is zero for a
  finite \<open>v\<close> and NaN for an infinity or NaN.
\<close>

datatype float32 = Finite real | PosInf | NegInf | NaN


text \<open>
  An elementwise operation between a matrix \<open>[n, m]\<close> and a column \<open>[n, 1]\<close>
  (\<^verbatim>\<open>tf.expand_dims(v, 1)\<close>): the single value of each row of the column is broadcast
  along the row of the matrix; the first axis follows the vector rule.
\<close>

definition broadcast_cols :: "('a \<Rightarrow> 'b \<Rightarrow> 'c) \<Rightarrow> 'a list list \<Rightarrow> 'b list \<Rightarrow> error + 'c list list" where
  "broadcast_cols f grid col = broadcast_op (\<lambda>row c. map (\<lambda>x. f x c) row) grid col"


section \<open>Row-wise gathering\<close>

text \<open>
  \<^verbatim>\<open>tf.pack\<close> of two vectors needs equal lengths and gives a \<open>[2, n]\<close> matrix, whose
  \<^verbatim>\<open>tf.transpose\<close> is the \<open>[n, 2]\<close> matrix of pairs. \<^verbatim>\<open>tf.gather_nd\<close> with
  \<open>[row, column]\<close> coordinates reads one cell per coordinate and rejects a
  coordinate outside the matrix. With int32 coordinates it first requires that
  the cells of the matrix can be counted in int32: more than \<open>2^31 - 1\<close> cells are
  rejected.
\<close>

definition tf_pack2 :: "'a list \<Rightarrow> 'a list \<Rightarrow> error + 'a list list" where
  "tf_pack2 xs ys = (if length xs = length ys then Inr [xs, ys] else Inl InvalidArgument)"

definition tf_transpose_2d :: "'a list list \<Rightarrow> 'a list list" where
  "tf_transpose_2d rows = List.transpose rows"

definition coordinate_ok :: "'a list list \<Rightarrow> int list \<Rightarrow> bool" where
  "coordinate_ok params c \<longleftrightarrow>
     length c = 2 \<and> 0 \<le> c ! 0 \<and> c ! 0 < int (length params) \<and>
     0 \<le> c ! 1 \<and> c ! 1 < int (length (params ! nat (c ! 0)))"

definition tf_gather_nd :: "'a list list \<Rightarrow> int list list \<Rightarrow> error + 'a list" where
  "tf_gather_nd params coords =
     (if 2 ^ 31 - 1 < int (sum_list (map length params)) then Inl InvalidArgument
      else if list_all (coordinate_ok params) coords
      then Inr (map (\<lambda>c. params ! nat (c ! 0) ! nat (c ! 1)) coords)
      else Inl InvalidArgument)"

text \<open>
  \<^verbatim>\<open>
  def gather_rowwise_indices_1d(indices):
      rows = tf.shape(indices)[0]
      row_index = tf.cast(tf.range(rows), tf.int64)
      _indices = tf.transpose(tf.pack([row_index, indices]))
      return _indices

  def gather_rowwise_1d(input, indices):
      with tf.name_scope("gather_rowwise_nd"):
          return tf.gather_nd(input,
                              tf.cast(gather_rowwise_indices_1d(indices),
                                      tf.int32))
  \<close>
  The row numbers are widened to int64, which keeps them; the packed coordinates
  are narrowed to int32 before the gather.
\<close>

definition gather_rowwise_indices_1d :: "int list \<Rightarrow> error + int list list" where
  "gather_rowwise_indices_1d indices =
     (case tf_range 0 (int (length indices)) of
        Inl e \<Rightarrow> Inl e
      | Inr row_index \<Rightarrow>
          (case tf_pack2 row_index indices of
             Inl e \<Rightarrow> Inl e
           | Inr packed \<Rightarrow> Inr (tf_transpose_2d packed)))"

definition gather_rowwise_1d :: "'a list list \<Rightarrow> int list \<Rightarrow> error + 'a list" where
  "gather_rowwise_1d input indices =
     (case gather_rowwise_indices_1d indices of
        Inl e \<Rightarrow> Inl e
      | Inr ix \<Rightarrow> tf_gather_nd input (map (map cast_int32) ix))"

section \<open>Normalisation\<close>

text \<open>
  \<^verbatim>\<open>
  def unit_length(tensor):
      l2norm_sq = tf.reduce_sum(tensor * tensor, 1, keep_dims=True)
      l2norm = tf.rsqrt(l2norm_sq)
      return tensor * l2norm
  \<close>
  Over the reals; \<^verbatim>\<open>tf.rsqrt\<close> is the reciprocal of the square root.
\<close>

definition rsqrt :: "real \<Rightarrow> real" where
  "rsqrt x = 1 / sqrt x"

definition unit_length :: "real list list \<Rightarrow> real list list" where
  "unit_length tensor =
     (let l2norm_sq = map (\<lambda>row. sum_list (map2 (*) row row)) tensor;
          l2norm = map rsqrt l2norm_sq
      in map2 (\<lambda>row s. map (\<lambda>x. x * s) row) tensor l2norm)"

section \<open>Segment-wise softmax and argmax\<close>

text \<open>
  \<^verbatim>\<open>tf.reduce_max(x, axis=1)\<close> takes the maximum of each row. On a row without cells
  the runtime answers the float \<open>-\<infinity>\<close>, which is not a real number; a matrix
  with no columns has no cell that could be compared with it, and the model
  answers \<open>0\<close> there.
\<close>

fun row_max :: "real list \<Rightarrow> real" where
  "row_max [] = 0"
| "row_max (x # xs) = fold max xs x"

text \<open>
  The segment reductions \<^verbatim>\<open>tf.segment_max\<close> and \<^verbatim>\<open>tf.segment_sum\<close> take one value and
  one segment id per row. The runtime validates the ids: they have to be
  non-negative and non-decreasing, so that the rows of one segment are adjacent.
  Entry \<open>g\<close> of the result reduces the rows whose id is \<open>g\<close>; the result has one
  entry for every id up to the last one, and an id without rows yields \<open>0\<close>.
\<close>

definition segment_ids_ok :: "int list \<Rightarrow> bool" where
  "segment_ids_ok ids \<longleftrightarrow> sorted ids \<and> list_all (\<lambda>i. 0 \<le> i) ids"

definition num_segments :: "int list \<Rightarrow> nat" where
  "num_segments ids = (if ids = [] then 0 else nat (last ids + 1))"

definition segment_rows :: "'a list \<Rightarrow> int list \<Rightarrow> int \<Rightarrow> 'a list" where
  "segment_rows data ids g = map fst (filter (\<lambda>p. snd p = g) (zip data ids))"

definition tf_segment_max :: "real list \<Rightarrow> int list \<Rightarrow> error + real list" where
  "tf_segment_max data ids =
     (if length data \<noteq> length ids \<or> \<not> segment_ids_ok ids then Inl InvalidArgument
      else Inr (map (\<lambda>g. row_max (segment_rows data ids (int g))) [0..<num_segments ids]))"

definition tf_segment_sum :: "real list \<Rightarrow> int list \<Rightarrow> error + real list" where
  "tf_segment_sum data ids =
     (if length data \<noteq> length ids \<or> \<not> segment_ids_ok ids then Inl InvalidArgument
      else Inr (map (\<lambda>g. sum_list (segment_rows data ids (int g))) [0..<num_segments ids]))"

text \<open>
  \<^verbatim>\<open>
  def segment_softmax(scores, partition):
      # Subtract max
      max_per_partition = tf.segment_max(tf.reduce_max(scores, axis=1), partition)
      scores -= tf.expand_dims(tf.gather(max_per_partition, partition), axis=1)

      # Compute probs
      scores_exp = tf.exp(scores)
      scores_exp_sum_per_partition = tf.segment_sum(tf.reduce_sum(scores_exp, axis=1), partition)
      probs = scores_exp / tf.expand_dims(tf.gather(scores_exp_sum_per_partition, partition), axis=1)

      return probs
  \<close>
\<close>

definition segment_softmax :: "real list list \<Rightarrow> int list \<Rightarrow> error + real list list" where
  "segment_softmax scores partition_ids =
     (case tf_segment_max (map row_max scores) partition_ids of
        Inl e \<Rightarrow> Inl e
      | Inr max_per_partition \<Rightarrow>
          (case tf_gather max_per_partition partition_ids of
             Inl e \<Rightarrow> Inl e
           | Inr group_max \<Rightarrow>
               (case broadcast_cols (-) scores group_max of
                  Inl e \<Rightarrow> Inl e
                | Inr shifted \<Rightarrow>
                    (let scores_exp = map (map exp) shifted
                     in case tf_segment_sum (map sum_list scores_exp) partition_ids of
                          Inl e \<Rightarrow> Inl e
                        | Inr scores_exp_sum_per_partition \<Rightarrow>
                            (case tf_gather scores_exp_sum_per_partition partition_ids of
                               Inl e \<Rightarrow> Inl e
                             | Inr group_sum \<Rightarrow>
                                 broadcast_cols (/) scores_exp group_sum)))))"

text \<open>
  \<^verbatim>\<open>tf.where\<close> of a boolean vector lists the positions of its true entries as a
  \<open>[k, 1]\<close> matrix. \<^verbatim>\<open>tf.squeeze\<close> without an axis drops every axis of size one:
  a \<open>[1, 1]\<close> matrix becomes a scalar, any other \<open>[k, 1]\<close> matrix a vector.
  \<^verbatim>\<open>tf.gather\<close> with a scalar index yields one row, with a vector of indices a
  matrix. \<^verbatim>\<open>tf.argmax(x, axis=1)\<close> needs a matrix with at least one column and
  gives, per row, the first position of the row's largest entry.
\<close>

datatype 'a squeezed = Scalar 'a | Vector "'a list"

datatype 'a gathered = Row "'a list" | Matrix "'a list list"

definition tf_where :: "bool list \<Rightarrow> int list list" where
  "tf_where flags = map (\<lambda>i. [int i]) (filter (\<lambda>i. flags ! i) [0..<length flags])"

definition tf_squeeze :: "'a list list \<Rightarrow> 'a squeezed" where
  "tf_squeeze rows = (if length rows = 1 then Scalar (hd (hd rows)) else Vector (map hd rows))"

definition tf_gather_squeezed :: "'a list list \<Rightarrow> int squeezed \<Rightarrow> error + 'a gathered" where
  "tf_gather_squeezed params indices =
     (case indices of
        Scalar i \<Rightarrow>
          (case tf_gather params [i] of Inl e \<Rightarrow> Inl e | Inr rs \<Rightarrow> Inr (Row (hd rs)))
      | Vector is \<Rightarrow>
          (case tf_gather params is of Inl e \<Rightarrow> Inl e | Inr rs \<Rightarrow> Inr (Matrix rs)))"

definition first_max :: "int list \<Rightarrow> int" where
  "first_max xs = int (length (takeWhile (\<lambda>x. x \<noteq> fold max (tl xs) (hd xs)) xs))"

definition tf_argmax_axis1 :: "int gathered \<Rightarrow> error + int list" where
  "tf_argmax_axis1 x =
     (case x of
        Row r \<Rightarrow> Inl InvalidArgument
      | Matrix rs \<Rightarrow>
          (if list_ex (\<lambda>r. r = []) rs then Inl InvalidArgument else Inr (map first_max rs)))"

definition cast_bool_int64 :: "bool \<Rightarrow> int" where
  "cast_bool_int64 b = (if b then 1 else 0)"

definition map_gathered :: "('a \<Rightarrow> 'b) \<Rightarrow> 'a gathered \<Rightarrow> 'b gathered" where
  "map_gathered f x = (case x of Row r \<Rightarrow> Row (map f r) | Matrix rs \<Rightarrow> Matrix (map (map f) rs))"

text \<open>
  \<^verbatim>\<open>
  def segment_argmax(input, partition):
      with tf.name_scope("segment_argmax"):
          num_partitions = tf.reduce_max(partition) + 1
          max_per_partition = tf.segment_max(tf.reduce_max(input, axis=1), partition)
          is_max = tf.equal(input, tf.expand_dims(tf.gather(max_per_partition, partition), 1))
          is_max_count = tf.reduce_sum(tf.cast(is_max, tf.int64))
          assert_op = tf.assert_equal(num_partitions, is_max_count,
                                      message="Current segment_max() implementation "
                                              "assumes that only one element is equal "
                                              "to the maximum.")
          with tf.control_dependencies([assert_op]):
              # Get selected rows and columns
              row_selected = tf.reduce_any(is_max, axis=1)
              row_indices = tf.squeeze(tf.where(row_selected))
              selected_rows_is_max = tf.gather(is_max, row_indices)
              col_indices = tf.argmax(tf.cast(selected_rows_is_max, tf.int64), axis=1)
              # Pack indices
              return row_indices, col_indices
  \<close>
  The operations under the control dependency run only after the assertion has
  passed; a failed assertion is the error \<open>AssertionFailed\<close>.
\<close>

definition segment_argmax ::
  "real list list \<Rightarrow> int list \<Rightarrow> error + (int squeezed \<times> int list)" where
  "segment_argmax input partition_ids =
     (let num_partitions = reduce_max_int64 partition_ids + 1
      in case tf_segment_max (map row_max input) partition_ids of
           Inl e \<Rightarrow> Inl e
         | Inr max_per_partition \<Rightarrow>
             (case tf_gather max_per_partition partition_ids of
                Inl e \<Rightarrow> Inl e
              | Inr group_max \<Rightarrow>
                  (case broadcast_cols (=) input group_max of
                     Inl e \<Rightarrow> Inl e
                   | Inr is_max \<Rightarrow>
                       (let is_max_count = sum_list (map (\<lambda>r. sum_list (map cast_bool_int64 r)) is_max)
                        in if num_partitions \<noteq> is_max_count then Inl AssertionFailed
                           else
                             (let row_selected = map (list_ex (\<lambda>b. b)) is_max;
                                  row_indices = tf_squeeze (tf_where row_selected)
                              in case tf_gather_squeezed is_max row_indices of
                                   Inl e \<Rightarrow> Inl e
                                 | Inr selected_rows_is_max \<Rightarrow>
                                     (case tf_argmax_axis1
                                             (map_gathered cast_bool_int64 selected_rows_is_max) of
                                        Inl e \<Rightarrow> Inl e
                                      | Inr col_indices \<Rightarrow> Inr (row_indices, col_indices)))))))"

text \<open>
  In the words of the specification: the cells of a group are the cells of all
  rows carrying the group's id, and a maximal cell of the group is one that
  equals the largest of them.
\<close>

definition group_cells :: "real list list \<Rightarrow> int list \<Rightarrow> int \<Rightarrow> real list" where
  "group_cells rows partition_ids g = concat (segment_rows rows partition_ids g)"

definition maximal_cells :: "real list list \<Rightarrow> int list \<Rightarrow> int \<Rightarrow> nat" where
  "maximal_cells rows partition_ids g =
     count_list (group_cells rows partition_ids g) (Max (set (group_cells rows partition_ids g)))"

text \<open>
  Two names for the halves of \<open>segment_argmax\<close>: the matrix \<open>is_max\<close> that it
  computes from valid segment ids, and the selection that runs once the assertion
  has passed.
\<close>

definition is_max_cells :: "real list list \<Rightarrow> int list \<Rightarrow> bool list list" where
  "is_max_cells rows partition_ids =
     map2 (\<lambda>row g. map (\<lambda>x. x = row_max (segment_rows (map row_max rows) partition_ids g)) row)
       rows partition_ids"

definition select_maxima :: "bool list list \<Rightarrow> error + (int squeezed \<times> int list)" where
  "select_maxima is_max =
     (let row_selected = map (list_ex (\<lambda>b. b)) is_max;
          row_indices = tf_squeeze (tf_where row_selected)
      in case tf_gather_squeezed is_max row_indices of
           Inl e \<Rightarrow> Inl e
         | Inr selected_rows_is_max \<Rightarrow>
             (case tf_argmax_axis1 (map_gathered cast_bool_int64 selected_rows_is_max) of
                Inl e \<Rightarrow> Inl e
              | Inr col_indices \<Rightarrow> Inr (row_indices, col_indices)))"

section \<open>Gathering along an arbitrary axis\<close>

text \<open>
  \<^verbatim>\<open>gather_in_dim\<close> works at any rank: a tensor is its shape and its cells in
  row-major order.
\<close>

record 'a tensor =
  shape :: "nat list"
  elems :: "'a list"

definition well_formed :: "'a tensor \<Rightarrow> bool" where
  "well_formed t \<longleftrightarrow> length (elems t) = prod_list (shape t)"

fun unravel :: "nat list \<Rightarrow> nat \<Rightarrow> nat list" where
  "unravel [] k = []"
| "unravel (d # ds) k = (k div prod_list ds) # unravel ds (k mod prod_list ds)"

fun ravel :: "nat list \<Rightarrow> nat list \<Rightarrow> nat" where
  "ravel (d # ds) (i # is) = i * prod_list ds + ravel ds is"
| "ravel _ _ = 0"

definition position_of :: "nat \<Rightarrow> nat list \<Rightarrow> nat" where
  "position_of a p = length (takeWhile (\<lambda>b. b \<noteq> a) p)"

definition is_permutation :: "int list \<Rightarrow> nat \<Rightarrow> bool" where
  "is_permutation perm r \<longleftrightarrow> length perm = r \<and> list_all (\<lambda>a. int a \<in> set perm) [0..<r]"

text \<open>
  \<^verbatim>\<open>tf.transpose(t, perm)\<close>: axis \<open>b\<close> of the result is axis \<open>perm[b]\<close> of the
  argument; \<open>perm\<close> has to be a permutation of the axes.
\<close>

definition tf_transpose :: "'a tensor \<Rightarrow> int list \<Rightarrow> error + 'a tensor" where
  "tf_transpose t perm =
     (if \<not> is_permutation perm (length (shape t)) then Inl InvalidArgument
      else
        (let p = map nat perm;
             out_shape = map (\<lambda>a. shape t ! a) p
         in Inr \<lparr>shape = out_shape,
                 elems = map (\<lambda>k. elems t !
                                 ravel (shape t)
                                   (map (\<lambda>a. unravel out_shape k ! position_of a p)
                                      [0..<length p]))
                           [0..<prod_list out_shape]\<rparr>))"

text \<open>\<^verbatim>\<open>tf.gather\<close> along the first axis of a tensor of rank at least one.\<close>

definition tf_gather_slices :: "'a tensor \<Rightarrow> int list \<Rightarrow> error + 'a tensor" where
  "tf_gather_slices params indices =
     (case shape params of
        [] \<Rightarrow> Inl InvalidArgument
      | d # ds \<Rightarrow>
          (if list_all (\<lambda>i. 0 \<le> i \<and> i < int d) indices
           then Inr \<lparr>shape = length indices # ds,
                     elems = concat (map (\<lambda>i. take (prod_list ds)
                                                (drop (nat i * prod_list ds) (elems params)))
                                       indices)\<rparr>
           else Inl InvalidArgument))"

text \<open>A Python list assignment \<^verbatim>\<open>xs[i] = v\<close>: a negative index counts from the end.\<close>

definition py_setitem :: "'a list \<Rightarrow> int \<Rightarrow> 'a \<Rightarrow> error + 'a list" where
  "py_setitem xs i v =
     (let j = (if i < 0 then i + int (length xs) else i)
      in if 0 \<le> j \<and> j < int (length xs) then Inr (xs[nat j := v]) else Inl IndexError)"

text \<open>
  \<^verbatim>\<open>
  def gather_in_dim(params, indices, dim, name=None):
      if dim == 0:
          return tf.gather(params, indices, name)
      else:
          dims = [i for i in range(0, len(params.get_shape()))]
          to_dims = list(dims)
          to_dims[0] = dim
          to_dims[dim] = 0

          transposed = tf.transpose(params, to_dims)
          gathered = tf.gather(transposed, indices)
          reverted = tf.transpose(gathered, to_dims)

          return reverted
  \<close>
\<close>

definition gather_in_dim :: "'a tensor \<Rightarrow> int list \<Rightarrow> int \<Rightarrow> error + 'a tensor" where
  "gather_in_dim params indices axis =
     (if axis = 0 then tf_gather_slices params indices
      else
        (let dims = map int [0..<length (shape params)]
         in case py_setitem dims 0 axis of
              Inl e \<Rightarrow> Inl e
            | Inr to_dims0 \<Rightarrow>
                (case py_setitem to_dims0 axis 0 of
                   Inl e \<Rightarrow> Inl e
                 | Inr to_dims \<Rightarrow>
                     (case tf_transpose params to_dims of
                        Inl e \<Rightarrow> Inl e
                      | Inr transposed \<Rightarrow>
                          (case tf_gather_slices transposed indices of
                             Inl e \<Rightarrow> Inl e
                           | Inr gathered \<Rightarrow> tf_transpose gathered to_dims)))))"

text \<open>
  In the words of the specification: the permutation that swaps axis \<open>0\<close> and
  axis \<open>dim\<close> of a tensor of rank \<open>r\<close>.
\<close>

definition swap_dims :: "nat \<Rightarrow> nat \<Rightarrow> int list" where
  "swap_dims r d = (map int [0..<r])[0 := int d, d := 0]"

section \<open>Properties of the indexing functions\<close>

lemma length_concat_uniform:
  "\<forall>p \<in> set xss. length p = d \<Longrightarrow> length (concat xss) = length xss * d"
  by (induction xss) simp_all

lemma nth_concat_uniform:
  "\<forall>p \<in> set xss. length p = d \<Longrightarrow> i < length xss \<Longrightarrow> j < d \<Longrightarrow>
   concat xss ! (i * d + j) = xss ! i ! j"
proof (induction xss arbitrary: i)
  case Nil
  then show ?case by simp
next
  case (Cons p xss)
  show ?case
  proof (cases i)
    case 0
    with Cons.prems show ?thesis by (simp add: nth_append)
  next
    case (Suc k)
    with Cons.prems have "concat xss ! (k * d + j) = xss ! k ! j"
      by (intro Cons.IH) simp_all
    moreover have "length p = d" using Cons.prems by simp
    ultimately show ?thesis using Suc by (simp add: nth_append add.assoc)
  qed
qed

lemma cast_int32_id: "- (2 ^ 31) \<le> x \<Longrightarrow> x < 2 ^ 31 \<Longrightarrow> cast_int32 x = x"
  by (simp add: cast_int32_def)

lemma upto_as_upt: "[0..int M - 1] = map int [0..<M]"
  by (rule nth_equalityI) (simp_all add: nth_upto)

lemma flat_index_int32:
  assumes i: "i < d1" and j: "1 \<le> x" "x \<le> int d2" and fit: "d1 * d2 \<le> 2 ^ 31 - 1"
  shows "int32_plus (int32_times (int i) (int d2)) (int32_minus x 1) = int (i * d2 + nat (x - 1))"
proof -
  have lim: "int (d1 * d2) \<le> 2 ^ 31 - 1"
  proof -
    have "int (d1 * d2) \<le> int (2 ^ 31 - 1)" using fit by (simp only: of_nat_le_iff)
    then show ?thesis by simp
  qed
  have "Suc i * d2 \<le> d1 * d2" using i by (intro mult_le_mono1) simp
  then have up: "int i * int d2 + int d2 \<le> int (d1 * d2)"
    by (metis mult_Suc of_nat_add of_nat_le_iff of_nat_mult add.commute)
  have nn: "0 \<le> int i * int d2" by simp
  have a: "int32_times (int i) (int d2) = int i * int d2"
    unfolding int32_times_def using nn up lim j by (intro cast_int32_id) linarith+
  have b: "int32_minus x 1 = x - 1"
    unfolding int32_minus_def using up lim j nn by (intro cast_int32_id) linarith+
  have c: "int32_plus (int i * int d2) (x - 1) = int i * int d2 + (x - 1)"
    unfolding int32_plus_def using up lim j nn by (intro cast_int32_id) linarith+
  show ?thesis unfolding a b c using j by simp
qed

lemma get_by_index_rows:
  assumes wf: "well_formed3 t"
    and len: "length index = dim1 t"
    and rng: "\<forall>i < dim1 t. 1 \<le> index ! i \<and> index ! i \<le> int (dim2 t)"
    and fit: "dim1 t * dim2 t \<le> 2 ^ 31 - 1"
  shows "get_by_index t index =
           Inr (map (\<lambda>i. cells t ! i ! nat (index ! i - 1)) [0..<dim1 t])"
proof -
  let ?d1 = "dim1 t" and ?d2 = "dim2 t"
  have rows: "\<forall>p \<in> set (cells t). length p = ?d2" and lc: "length (cells t) = ?d1"
    using wf by (auto simp: well_formed3_def list_all_iff)
  have lcat: "length (concat (cells t)) = ?d1 * ?d2"
    using length_concat_uniform[OF rows] lc by (simp only:)
  let ?flat = "map2 int32_plus (map (\<lambda>r. int32_times r (int ?d2)) (map int [0..<?d1]))
                 (map (\<lambda>i. int32_minus i 1) index)"
  have lflat: "length ?flat = ?d1" using len by simp
  have nflat: "?flat ! i = int (i * ?d2 + nat (index ! i - 1))" if "i < ?d1" for i
  proof -
    have "1 \<le> index ! i" "index ! i \<le> int ?d2" using that rng by blast+
    from flat_index_int32[OF that this fit] show ?thesis using that len by simp
  qed
  have below: "i * ?d2 + nat (index ! i - 1) < ?d1 * ?d2" if i: "i < ?d1" for i
  proof -
    have j: "nat (index ! i - 1) < ?d2" using rng i by auto
    have "i * ?d2 + nat (index ! i - 1) < (Suc i) * ?d2" using j by simp
    also have "\<dots> \<le> ?d1 * ?d2" using i by (intro mult_le_mono1) simp
    finally show ?thesis .
  qed
  have flat_eq: "?flat = map (\<lambda>i. int (i * ?d2 + nat (index ! i - 1))) [0..<?d1]"
  proof (rule nth_equalityI)
    show "length ?flat = length (map (\<lambda>i. int (i * ?d2 + nat (index ! i - 1))) [0..<?d1])"
      using lflat by simp
  next
    fix i assume "i < length ?flat"
    then have i: "i < ?d1" using lflat by simp
    have "map (\<lambda>i. int (i * ?d2 + nat (index ! i - 1))) [0..<?d1] ! i
          = int (i * ?d2 + nat (index ! i - 1))"
      using i by (simp del: of_nat_mult of_nat_add)
    then show "?flat ! i = map (\<lambda>i. int (i * ?d2 + nat (index ! i - 1))) [0..<?d1] ! i"
      using nflat[OF i] by (simp only:)
  qed
  have inr: "list_all (\<lambda>k. 0 \<le> k \<and> k < int (length (concat (cells t)))) ?flat"
    unfolding flat_eq lcat using below by (simp add: list_all_iff del: of_nat_mult of_nat_add)
  have small: "\<not> 2 ^ 31 - 1 < int (length (concat (cells t)))"
  proof -
    have "int (?d1 * ?d2) \<le> int (2 ^ 31 - 1)" using fit by (simp only: of_nat_le_iff)
    then show ?thesis unfolding lcat by simp
  qed
  have sel: "map (\<lambda>k. concat (cells t) ! nat k) ?flat
        = map (\<lambda>i. cells t ! i ! nat (index ! i - 1)) [0..<?d1]"
  proof -
    have "concat (cells t) ! (i * ?d2 + nat (index ! i - 1)) = cells t ! i ! nat (index ! i - 1)"
      if i: "i < ?d1" for i
    proof -
      have j: "nat (index ! i - 1) < ?d2" using rng i by auto
      show ?thesis using nth_concat_uniform[OF rows _ j] i lc by simp
    qed
    then show ?thesis unfolding flat_eq by (simp add: comp_def del: of_nat_mult of_nat_add)
  qed
  have "get_by_index t index = tf_gather_int32 (concat (cells t)) ?flat"
    using len
    by (simp add: get_by_index_def tf_range_def tf_shape_def broadcast_op_def
        tf_reshape_rows_def upto_as_upt del: upto.simps)
  also have "\<dots> = Inr (map (\<lambda>k. concat (cells t) ! nat k) ?flat)"
    using inr small by (simp only: tf_gather_int32_def tf_gather_def if_True if_False)
  finally show ?thesis unfolding sel .
qed


text \<open>
  Claim C6, amended. For a tensor of shape \<open>[d1, d2, d3]\<close> with
  \<open>d1 * d2 \<le> 2^31 - 1\<close>, so that every flat index fits int32, and an index
  vector of length \<open>d1\<close> whose entries lie in \<open>[1, d2]\<close>, \<open>get_by_index\<close>
  returns a \<open>[d1, d3]\<close> matrix whose row \<open>i\<close> is the slice
  \<open>tensor[i, index[i] - 1]\<close>: the index is one-based.
\<close>

theorem get_by_index_selects:
  assumes "well_formed3 t"
    and "length index = dim1 t"
    and "\<forall>i < dim1 t. 1 \<le> index ! i \<and> index ! i \<le> int (dim2 t)"
    and "dim1 t * dim2 t \<le> 2 ^ 31 - 1"
  shows "\<exists>res. get_by_index t index = Inr res \<and> length res = dim1 t \<and>
           (\<forall>i < dim1 t. length (res ! i) = dim3 t \<and>
                          res ! i = cells t ! i ! nat (index ! i - 1))"
proof -
  have "\<forall>i < dim1 t. length (cells t ! i ! nat (index ! i - 1)) = dim3 t"
  proof (intro allI impI)
    fix i assume i: "i < dim1 t"
    have p: "cells t ! i \<in> set (cells t)"
      using assms(1) i by (simp add: well_formed3_def)
    then have lp: "length (cells t ! i) = dim2 t"
      using assms(1) by (auto simp: well_formed3_def list_all_iff)
    have "nat (index ! i - 1) < dim2 t" using assms(3) i by auto
    then have "cells t ! i ! nat (index ! i - 1) \<in> set (cells t ! i)" using lp by simp
    then show "length (cells t ! i ! nat (index ! i - 1)) = dim3 t"
      using assms(1) p by (auto simp: well_formed3_def list_all_iff)
  qed
  then show ?thesis
    using get_by_index_rows[OF assms] by simp
qed

theorem get_by_index_selects_witness:
  "\<exists>res. get_by_index \<lparr>dim1 = 2, dim2 = 2, dim3 = 1,
                         cells = [[[10], [20]], [[30], [40 :: int]]]\<rparr> [1, 2] = Inr res \<and>
         length res = 2 \<and> res ! 0 = [10] \<and> res ! 1 = [40]"
proof -
  let ?t = "\<lparr>dim1 = 2, dim2 = 2, dim3 = 1, cells = [[[10], [20]], [[30], [40 :: int]]]\<rparr>"
  have wf: "well_formed3 ?t" by (simp add: well_formed3_def)
  have len: "length [1, 2 :: int] = dim1 ?t" by simp
  have rng: "\<forall>i < dim1 ?t. 1 \<le> [1, 2 :: int] ! i \<and> [1, 2 :: int] ! i \<le> int (dim2 ?t)"
    by (auto simp: less_Suc_eq numeral_2_eq_2)
  have fit: "dim1 ?t * dim2 ?t \<le> 2 ^ 31 - 1" by simp
  from get_by_index_selects[OF wf len rng fit]
  obtain res where r: "get_by_index ?t [1, 2] = Inr res" "length res = dim1 ?t"
    "\<forall>i < dim1 ?t. length (res ! i) = dim3 ?t \<and> res ! i = cells ?t ! i ! nat ([1, 2] ! i - 1)"
    by blast
  from r(3) have "res ! 0 = [10]" "res ! 1 = [40]" by simp_all
  with r(1,2) show ?thesis by simp
qed

text \<open>
  The flat index is an int32 value: for the shape \<open>[2, 2^30 + 1, 1]\<close> and the
  valid index \<open>[1, 2^30 + 1]\<close> the second flat index \<open>2^31 + 1\<close> wraps to a negative
  number, and the \<open>2^31 + 2\<close> rows of the reshaped tensor are more than int32 can
  index: the gather is rejected.
\<close>

theorem get_by_index_int32_counterexample:
  "well_formed3 \<lparr>dim1 = 2, dim2 = 1073741825, dim3 = 1,
                  cells = replicate 2 (replicate 1073741825 [0 :: int])\<rparr> \<and>
   get_by_index \<lparr>dim1 = 2, dim2 = 1073741825, dim3 = 1,
                 cells = replicate 2 (replicate 1073741825 [0 :: int])\<rparr> [1, 1073741825] =
     Inl InvalidArgument \<and>
   int32_plus (int32_times 1 1073741825) (int32_minus 1073741825 1) = - 2147483647"
proof -
  have len: "length (concat (replicate 2 (replicate 1073741825 [0 :: int]))) = 2147483650"
    by (simp add: length_concat sum_list_replicate)
  have wf: "well_formed3 \<lparr>dim1 = 2, dim2 = 1073741825, dim3 = 1,
                  cells = replicate 2 (replicate 1073741825 [0 :: int])\<rparr>"
    by (simp add: well_formed3_def list_all_iff)
  have "get_by_index \<lparr>dim1 = 2, dim2 = 1073741825, dim3 = 1,
                 cells = replicate 2 (replicate 1073741825 [0 :: int])\<rparr> [1, 1073741825] =
     Inl InvalidArgument"
    by (simp add: get_by_index_def tf_range_def tf_shape_def broadcast_op_def
        tf_reshape_rows_def tf_gather_int32_def len del: upto.simps concat_replicate_trivial)
  moreover have "int32_plus (int32_times 1 1073741825) (int32_minus 1073741825 1) = - 2147483647"
    by (simp add: int32_plus_def int32_times_def int32_minus_def cast_int32_def)
  ultimately show ?thesis using wf by simp
qed

lemma get_last_rows:
  assumes wf: "well_formed3 t" and d2: "1 \<le> dim2 t"
  shows "get_last t = Inr (map (\<lambda>i. cells t ! i ! (dim2 t - 1)) [0..<dim1 t])"
proof -
  have rows: "\<forall>p \<in> set (cells t). length p = dim2 t \<and> (\<forall>r \<in> set p. length r = dim3 t)"
    and lc: "length (cells t) = dim1 t"
    using wf by (auto simp: well_formed3_def list_all_iff)
  have ok: "slice_ok 0 (int (dim1 t)) (dim1 t)" "slice_ok (int (dim2 t) - 1) 1 (dim2 t)"
    "slice_ok 0 (int (dim3 t)) (dim3 t)"
    using d2 by (auto simp: slice_ok_def slice_extent_def)
  have ext: "slice_extent 0 (int (dim1 t)) (dim1 t) = int (dim1 t)"
    "slice_extent (int (dim2 t) - 1) 1 (dim2 t) = 1"
    "slice_extent 0 (int (dim3 t)) (dim3 t) = int (dim3 t)"
    using d2 by (auto simp: slice_extent_def)
  have plane: "map hd (map (\<lambda>p. map (slice_axis 0 (int (dim3 t)) (dim3 t))
                 (slice_axis (int (dim2 t) - 1) 1 (dim2 t) p))
               (slice_axis 0 (int (dim1 t)) (dim1 t) (cells t)))
        = map (\<lambda>i. cells t ! i ! (dim2 t - 1)) [0..<dim1 t]"
  proof (rule nth_equalityI)
    show "length (map hd (map (\<lambda>p. map (slice_axis 0 (int (dim3 t)) (dim3 t))
                 (slice_axis (int (dim2 t) - 1) 1 (dim2 t) p))
               (slice_axis 0 (int (dim1 t)) (dim1 t) (cells t))))
        = length (map (\<lambda>i. cells t ! i ! (dim2 t - 1)) [0..<dim1 t])"
      using lc by (simp add: slice_axis_def ext)
  next
    fix i
    assume "i < length (map hd (map (\<lambda>p. map (slice_axis 0 (int (dim3 t)) (dim3 t))
                 (slice_axis (int (dim2 t) - 1) 1 (dim2 t) p))
               (slice_axis 0 (int (dim1 t)) (dim1 t) (cells t))))"
    then have i: "i < dim1 t" using lc by (simp add: slice_axis_def ext)
    then have mem: "cells t ! i \<in> set (cells t)" using lc by simp
    have lp: "length (cells t ! i) = dim2 t" using rows mem by blast
    have lr: "length (cells t ! i ! (dim2 t - 1)) = dim3 t"
    proof -
      have "cells t ! i ! (dim2 t - 1) \<in> set (cells t ! i)" using lp d2 by simp
      then show ?thesis using rows mem by blast
    qed
    have "drop (nat (int (dim2 t) - 1)) (cells t ! i) = [cells t ! i ! (dim2 t - 1)]"
    proof -
      have "nat (int (dim2 t) - 1) = dim2 t - 1" using d2 by simp
      moreover have "drop (dim2 t - 1) (cells t ! i) = [cells t ! i ! (dim2 t - 1)]"
        using lp d2
        by (metis Suc_diff_1 Suc_le_lessD drop_all lessI order_refl Cons_nth_drop_Suc
            One_nat_def)
      ultimately show ?thesis by simp
    qed
    then show "map hd (map (\<lambda>p. map (slice_axis 0 (int (dim3 t)) (dim3 t))
                 (slice_axis (int (dim2 t) - 1) 1 (dim2 t) p))
               (slice_axis 0 (int (dim1 t)) (dim1 t) (cells t))) ! i
        = map (\<lambda>i. cells t ! i ! (dim2 t - 1)) [0..<dim1 t] ! i"
      using i lc lr by (simp add: slice_axis_def ext)
  qed
  show ?thesis
    using ok plane
    by (simp add: get_last_def tf_shape_def tf_slice_def tf_squeeze_axis1_def ext Let_def)
qed

text \<open>
  Claim C7. For a tensor of shape \<open>[d1, d2, d3]\<close> with \<open>d2 \<ge> 1\<close>, \<open>get_last\<close>
  returns a \<open>[d1, d3]\<close> matrix whose row \<open>i\<close> is \<open>tensor[i, d2 - 1]\<close>, the last
  slice along the second axis, for every \<open>i\<close> in \<open>[0, d1)\<close>.
\<close>

theorem get_last_selects:
  assumes "well_formed3 t" and "1 \<le> dim2 t"
  shows "\<exists>res. get_last t = Inr res \<and> length res = dim1 t \<and>
           (\<forall>i < dim1 t. length (res ! i) = dim3 t \<and> res ! i = cells t ! i ! (dim2 t - 1))"
proof -
  have "\<forall>i < dim1 t. length (cells t ! i ! (dim2 t - 1)) = dim3 t"
  proof (intro allI impI)
    fix i assume i: "i < dim1 t"
    have p: "cells t ! i \<in> set (cells t)"
      using assms(1) i by (simp add: well_formed3_def)
    then have lp: "length (cells t ! i) = dim2 t"
      using assms(1) by (auto simp: well_formed3_def list_all_iff)
    then have "cells t ! i ! (dim2 t - 1) \<in> set (cells t ! i)" using assms(2) by simp
    then show "length (cells t ! i ! (dim2 t - 1)) = dim3 t"
      using assms(1) p by (auto simp: well_formed3_def list_all_iff)
  qed
  then show ?thesis
    using get_last_rows[OF assms] by simp
qed

theorem get_last_selects_witness:
  "\<exists>res. get_last \<lparr>dim1 = 2, dim2 = 2, dim3 = 1,
                     cells = [[[10], [20]], [[30], [40 :: int]]]\<rparr> = Inr res \<and>
         length res = 2 \<and> res ! 0 = [20] \<and> res ! 1 = [40]"
proof -
  let ?t = "\<lparr>dim1 = 2, dim2 = 2, dim3 = 1, cells = [[[10], [20]], [[30], [40 :: int]]]\<rparr>"
  have wf: "well_formed3 ?t" by (simp add: well_formed3_def)
  have d2: "1 \<le> dim2 ?t" by simp
  from get_last_selects[OF wf d2]
  obtain res where r: "get_last ?t = Inr res" "length res = dim1 ?t"
    "\<forall>i < dim1 ?t. length (res ! i) = dim3 ?t \<and> res ! i = cells ?t ! i ! (dim2 ?t - 1)"
    by blast
  from r(3) have "res ! 0 = [20]" "res ! 1 = [40]" by simp_all
  with r(1,2) show ?thesis by simp
qed

section \<open>Properties of the normalisation\<close>


lemma unit_length_nth:
  assumes "i < length tensor"
  shows "unit_length tensor ! i =
           map (\<lambda>x. x * rsqrt (sum_list (map (\<lambda>y. y * y) (tensor ! i)))) (tensor ! i)"
  using assms by (simp add: unit_length_def Let_def zip_same_conv_map comp_def)

lemma sum_squares_pos:
  fixes row :: "real list"
  assumes "\<exists>x \<in> set row. x \<noteq> 0"
  shows "0 < sum_list (map (\<lambda>y. y * y) row)"
  using assms
proof (induction row)
  case Nil
  then show ?case by simp
next
  case (Cons a row)
  have nn: "0 \<le> sum_list (map (\<lambda>y. y * y) row)"
    by (rule sum_list_nonneg) auto
  show ?case
  proof (cases "a = 0")
    case True
    with Cons show ?thesis by auto
  next
    case False
    then have "0 < a * a" by (auto simp: zero_less_mult_iff)
    with nn show ?thesis by simp
  qed
qed

lemma sum_list_scaled_squares:
  fixes row :: "real list"
  shows "sum_list (map (\<lambda>x. x * x) (map (\<lambda>x. x * c) row)) = c * c * sum_list (map (\<lambda>x. x * x) row)"
  by (induction row) (simp_all add: algebra_simps)

text \<open>
  Claim C9. For a real matrix and a row \<open>i\<close> whose entries are not all zero, row
  \<open>i\<close> of \<open>unit_length\<close> has Euclidean norm \<open>1\<close> over exact real arithmetic;
  it is the row divided by the square root of its sum of squares.
\<close>

theorem unit_length_norm:
  assumes "i < length tensor" and "\<exists>x \<in> set (tensor ! i). x \<noteq> 0"
  shows "length (unit_length tensor) = length tensor \<and>
         length (unit_length tensor ! i) = length (tensor ! i) \<and>
         sqrt (sum_list (map (\<lambda>x. x * x) (unit_length tensor ! i))) = 1 \<and>
         unit_length tensor ! i =
           map (\<lambda>x. x / sqrt (sum_list (map (\<lambda>y. y * y) (tensor ! i)))) (tensor ! i)"
proof -
  let ?s = "sum_list (map (\<lambda>y. y * y) (tensor ! i))"
  have pos: "0 < ?s" using sum_squares_pos[OF assms(2)] .
  have row: "unit_length tensor ! i = map (\<lambda>x. x * rsqrt ?s) (tensor ! i)"
    using unit_length_nth[OF assms(1)] .
  have "sum_list (map (\<lambda>x. x * x) (unit_length tensor ! i)) = rsqrt ?s * rsqrt ?s * ?s"
    unfolding row by (rule sum_list_scaled_squares)
  also have "\<dots> = 1" using pos by (simp add: rsqrt_def)
  finally have norm: "sqrt (sum_list (map (\<lambda>x. x * x) (unit_length tensor ! i))) = 1" by simp
  have "length (unit_length tensor) = length tensor"
    by (simp add: unit_length_def Let_def)
  moreover have "unit_length tensor ! i = map (\<lambda>x. x / sqrt ?s) (tensor ! i)"
    unfolding row by (simp add: rsqrt_def)
  ultimately show ?thesis using norm row by simp
qed

theorem unit_length_norm_witness:
  "sqrt (sum_list (map (\<lambda>x. x * x) (unit_length [[3, 4], [0, 0]] ! 0))) = 1 \<and>
   unit_length [[3, 4], [0, 0]] ! 0 = map (\<lambda>x. x / sqrt 25) [3, 4]"
proof -
  have i: "0 < length [[3, 4], [0, 0 :: real]]" by simp
  have nz: "\<exists>x \<in> set ([[3, 4], [0, 0 :: real]] ! 0). x \<noteq> 0" by simp
  from unit_length_norm[OF i nz] show ?thesis by simp
qed

section \<open>Properties of the mask\<close>



lemma reduce_max_int64_Max:
  assumes "xs \<noteq> []" and "- (2 ^ 63) \<le> Max (set xs)"
  shows "reduce_max_int64 xs = Max (set xs)"
proof -
  have "fold max xs (- (2 ^ 63)) = Max (set ((- (2 ^ 63)) # xs))"
    by (simp only: Max.set_eq_fold)
  also have "\<dots> = max (- (2 ^ 63)) (Max (set xs))"
    using assms(1) by simp
  also have "\<dots> = Max (set xs)" using assms(2) by simp
  finally show ?thesis by (simp add: reduce_max_int64_def)
qed






section \<open>Properties of the row-wise gather\<close>

lemma transpose_pair:
  "length xs = length ys \<Longrightarrow> List.transpose [xs, ys] = map2 (\<lambda>x y. [x, y]) xs ys"
proof (induction xs arbitrary: ys)
  case Nil
  then show ?case by simp
next
  case (Cons x xs)
  then obtain y ys' where ys: "ys = y # ys'" by (cases ys) auto
  with Cons.prems have "length xs = length ys'" by simp
  from Cons.IH[OF this] show ?case using ys by simp
qed

lemma gather_rowwise_indices_1d_pairs:
  "gather_rowwise_indices_1d indices =
     Inr (map (\<lambda>i. [int i, indices ! i]) [0..<length indices])"
proof -
  have "map2 (\<lambda>x y. [x, y]) (map int [0..<length indices]) indices
        = map (\<lambda>i. [int i, indices ! i]) [0..<length indices]"
    by (rule nth_equalityI) simp_all
  then show ?thesis
    by (simp add: gather_rowwise_indices_1d_def tf_range_def tf_pack2_def tf_transpose_2d_def
        upto_as_upt transpose_pair del: upto.simps)
qed

lemma count_cells_uniform:
  "\<forall>row \<in> set input. length row = m \<Longrightarrow> sum_list (map length input) = length input * m"
  by (induction input) simp_all

lemma gather_rowwise_1d_cells:
  assumes len: "length indices = length input"
    and rect: "\<forall>row \<in> set input. length row = m"
    and rows: "\<forall>i < length input. 0 \<le> indices ! i \<and> indices ! i < int m"
    and fit: "length input * m \<le> 2 ^ 31 - 1"
  shows "gather_rowwise_1d input indices =
           Inr (map (\<lambda>i. input ! i ! nat (indices ! i)) [0..<length input])"
proof -
  have lim: "int (length input * m) < 2 ^ 31"
  proof -
    have "int (length input * m) \<le> int (2 ^ 31 - 1)" using fit by (simp only: of_nat_le_iff)
    then show ?thesis by simp
  qed
  have mpos: "0 < m" if "i < length input" for i
  proof -
    have "0 \<le> indices ! i" "indices ! i < int m" using rows that by blast+
    then show ?thesis by linarith
  qed
  have le_n: "int (length input) \<le> int (length input * m)"
    and le_m: "int m \<le> int (length input * m)" if "i < length input" for i
  proof -
    have "1 \<le> m" "1 \<le> length input" using mpos[OF that] that by simp_all
    then have "length input * 1 \<le> length input * m" "1 * m \<le> length input * m"
      by (simp_all only: mult_le_mono)
    then show "int (length input) \<le> int (length input * m)" "int m \<le> int (length input * m)"
      by (simp_all only: of_nat_le_iff mult_1 mult_1_right)
  qed
  have c1: "cast_int32 (int i) = int i" if "i < length input" for i
  proof -
    have "int i < 2 ^ 31" using that le_n[OF that] lim by linarith
    then show ?thesis by (simp add: cast_int32_id)
  qed
  have c2: "cast_int32 (indices ! i) = indices ! i" if "i < length input" for i
  proof -
    have "0 \<le> indices ! i" "indices ! i < int m" using that rows by blast+
    then have "0 \<le> indices ! i" "indices ! i < 2 ^ 31" using le_m[OF that] lim by linarith+
    then show ?thesis by (simp add: cast_int32_id)
  qed
  have coords: "map (map cast_int32) (map (\<lambda>i. [int i, indices ! i]) [0..<length indices])
        = map (\<lambda>i. [int i, indices ! i]) [0..<length input]"
    using len by (auto simp: c1 c2)
  have ok: "list_all (coordinate_ok input) (map (\<lambda>i. [int i, indices ! i]) [0..<length input])"
    using rows rect by (simp add: list_all_iff coordinate_ok_def)
  have small: "\<not> 2 ^ 31 - 1 < int (sum_list (map length input))"
    using lim count_cells_uniform[OF rect] by simp
  have "gather_rowwise_1d input indices
        = tf_gather_nd input (map (\<lambda>i. [int i, indices ! i]) [0..<length input])"
    by (simp add: gather_rowwise_1d_def gather_rowwise_indices_1d_pairs coords del: map_map)
  also have "\<dots> = Inr (map (\<lambda>i. input ! i ! nat (indices ! i)) [0..<length input])"
    using ok small by (simp add: tf_gather_nd_def comp_def)
  finally show ?thesis .
qed

text \<open>
  Claim C8, amended. For a matrix of shape \<open>[n, m]\<close> with at most \<open>2^31 - 1\<close> cells
  (\<open>n * m \<le> 2^31 - 1\<close>), which is what a gather with int32 coordinates accepts,
  and an index vector of length \<open>n\<close> with entries in \<open>[0, m)\<close>,
  \<open>gather_rowwise_1d\<close> returns the vector of length \<open>n\<close> whose entry \<open>i\<close> is
  \<open>input[i, indices[i]]\<close>.
\<close>

theorem gather_rowwise_1d_selects:
  assumes "length input = n" and "\<forall>row \<in> set input. length row = m"
    and "length indices = n" and "\<forall>i < n. 0 \<le> indices ! i \<and> indices ! i < int m"
    and "n * m \<le> 2 ^ 31 - 1"
  shows "gather_rowwise_1d input indices = Inr (map (\<lambda>i. input ! i ! nat (indices ! i)) [0..<n])"
  using gather_rowwise_1d_cells[of indices input m] assms by simp

theorem gather_rowwise_1d_selects_witness:
  "gather_rowwise_1d [[1, 2, 3], [4, 5, 6 :: int]] [2, 0] = Inr [3, 4]"
proof -
  have rows: "\<forall>row \<in> set [[1, 2, 3], [4, 5, 6 :: int]]. length row = 3" by simp
  have rng: "\<forall>i < 2. 0 \<le> [2, 0 :: int] ! i \<and> [2, 0 :: int] ! i < int 3"
    by (auto simp: less_Suc_eq numeral_2_eq_2)
  have fit: "(2 :: nat) * 3 \<le> 2 ^ 31 - 1" by simp
  have u2: "[0..<2] = [0, 1 :: nat]" by (simp add: upt_rec)
  from gather_rowwise_1d_selects[OF _ rows _ rng fit]
  show ?thesis by (simp add: u2)
qed

text \<open>
  The coordinates are cast to int32 and the gather then refuses a matrix whose
  cells cannot be counted in int32: a matrix of shape \<open>[2, 2^30]\<close> has \<open>2^31\<close>
  cells and is rejected, although the indices \<open>[0, 0]\<close> are valid.
\<close>

theorem gather_rowwise_1d_int32_counterexample:
  "gather_rowwise_1d (replicate 2 (replicate 1073741824 (0 :: int))) [0, 0] =
     Inl InvalidArgument \<and>
   length (replicate 2 (replicate 1073741824 (0 :: int))) = 2 \<and>
   (0 :: int) < int (length (replicate 1073741824 (0 :: int)))"
  by (simp add: gather_rowwise_1d_def gather_rowwise_indices_1d_pairs tf_gather_nd_def
      sum_list_replicate)

section \<open>Properties of the gather along an axis\<close>

lemma length_unravel [simp]: "length (unravel ds k) = length ds"
  by (induction ds arbitrary: k) simp_all

lemma ravel_unravel: "k < prod_list ds \<Longrightarrow> ravel ds (unravel ds k) = k"
proof (induction ds arbitrary: k)
  case Nil
  then show ?case by simp
next
  case (Cons d ds)
  then have pos: "0 < prod_list ds" by (cases "prod_list ds = 0") auto
  then have "k mod prod_list ds < prod_list ds" by simp
  from Cons.IH[OF this] show ?case by simp
qed

lemma position_of_upt: "a < r \<Longrightarrow> position_of a [0..<r] = a"
proof -
  assume a: "a < r"
  have "[0..<r] = [0..<a] @ a # [Suc a..<r]"
    using a by (metis le_add1 less_imp_add_positive upt_add_eq_append upt_conv_Cons
        le0 less_or_eq_imp_le)
  moreover have "takeWhile (\<lambda>b. b \<noteq> a) ([0..<a] @ a # [Suc a..<r]) = [0..<a]"
    by (subst takeWhile_append2) auto
  ultimately show ?thesis by (simp add: position_of_def)
qed

lemma is_permutation_swap_dims: "d < r \<Longrightarrow> is_permutation (swap_dims r d) r"
proof -
  assume d: "d < r"
  have "int a \<in> set (swap_dims r d)" if a: "a < r" for a
  proof -
    let ?k = "if a = 0 then d else if a = d then 0 else a"
    have "?k < length (swap_dims r d)" using a d by (simp add: swap_dims_def)
    moreover have "swap_dims r d ! ?k = int a"
      using a d by (auto simp: swap_dims_def nth_list_update)
    ultimately show ?thesis by (metis nth_mem)
  qed
  then show ?thesis by (simp add: is_permutation_def list_all_iff swap_dims_def)
qed

lemma tf_transpose_identity:
  assumes "well_formed t"
  shows "tf_transpose t (map int [0..<length (shape t)]) = Inr t"
proof -
  let ?r = "length (shape t)"
  have perm: "is_permutation (map int [0..<?r]) ?r"
    by (simp add: is_permutation_def list_all_iff)
  have p: "map nat (map int [0..<?r]) = [0..<?r]" by (simp add: comp_def)
  have sh: "map (\<lambda>a. shape t ! a) [0..<?r] = shape t" by (rule map_nth)
  have src: "map (\<lambda>a. unravel (shape t) k ! position_of a [0..<?r]) [0..<?r] = unravel (shape t) k"
    for k
    by (rule nth_equalityI) (simp_all add: position_of_upt)
  have "map (\<lambda>k. elems t ! ravel (shape t) (unravel (shape t) k)) [0..<prod_list (shape t)]
        = map (\<lambda>k. elems t ! k) [0..<prod_list (shape t)]"
    by (rule map_cong) (simp_all add: ravel_unravel)
  also have "\<dots> = elems t"
    using assms map_nth[of "elems t"] by (simp add: well_formed_def)
  finally have el: "map (\<lambda>k. elems t ! ravel (shape t) (unravel (shape t) k))
                      [0..<prod_list (shape t)] = elems t" .
  show ?thesis
    using perm by (simp add: tf_transpose_def Let_def p sh src el del: map_map)
qed

lemma swap_dims_zero: "swap_dims r 0 = map int [0..<r]"
  by (cases r) (simp_all add: swap_dims_def upt_rec)

lemma tf_gather_slices_well_formed:
  assumes "well_formed params" and "tf_gather_slices params indices = Inr g"
  shows "well_formed g \<and> length (shape g) = length (shape params)"
proof (cases "shape params")
  case Nil
  with assms(2) show ?thesis by (simp add: tf_gather_slices_def)
next
  case (Cons d ds)
  with assms(2) have rng: "\<forall>i \<in> set indices. 0 \<le> i \<and> i < int d"
    and g: "g = \<lparr>shape = length indices # ds,
               elems = concat (map (\<lambda>i. take (prod_list ds)
                                 (drop (nat i * prod_list ds) (elems params))) indices)\<rparr>"
    by (auto simp: tf_gather_slices_def list_all_iff split: if_splits)
  have len: "length (elems params) = d * prod_list ds"
    using assms(1) Cons by (simp add: well_formed_def)
  have "length (take (prod_list ds) (drop (nat i * prod_list ds) (elems params))) = prod_list ds"
    if "i \<in> set indices" for i
  proof -
    have "nat i < d" using rng that by auto
    then have "Suc (nat i) * prod_list ds \<le> d * prod_list ds"
      by (intro mult_le_mono1) simp
    then show ?thesis using len by simp
  qed
  then have "\<forall>p \<in> set (map (\<lambda>i. take (prod_list ds)
                 (drop (nat i * prod_list ds) (elems params))) indices). length p = prod_list ds"
    by auto
  from length_concat_uniform[OF this]
  have "length (concat (map (\<lambda>i. take (prod_list ds)
                 (drop (nat i * prod_list ds) (elems params))) indices))
             = length indices * prod_list ds"
    by simp
  then show ?thesis using g Cons by (simp add: well_formed_def)
qed


lemma swap_dims_nat:
  "d < r \<Longrightarrow> b < r \<Longrightarrow>
   map nat (swap_dims r d) ! b = (if b = d then 0 else if b = 0 then d else b)"
  by (auto simp: swap_dims_def nth_list_update)

lemma py_setitem_swap:
  assumes "0 < d" and "d < r"
  shows "py_setitem (map int [0..<r]) 0 (int d) = Inr ((map int [0..<r])[0 := int d])"
    and "py_setitem ((map int [0..<r])[0 := int d]) (int d) 0 = Inr (swap_dims r d)"
  using assms by (simp_all add: py_setitem_def swap_dims_def)

lemma gather_in_dim_unfold:
  assumes "0 < d" and "d < length (shape params)"
  shows "gather_in_dim params indices (int d) =
           (case tf_transpose params (swap_dims (length (shape params)) d) of
              Inl e \<Rightarrow> Inl e
            | Inr transposed \<Rightarrow>
                (case tf_gather_slices transposed indices of
                   Inl e \<Rightarrow> Inl e
                 | Inr gathered \<Rightarrow>
                     tf_transpose gathered (swap_dims (length (shape params)) d)))"
  using assms py_setitem_swap[OF assms] by (simp add: gather_in_dim_def Let_def)

lemma tf_transpose_swap_shape:
  assumes "d < length (shape t)"
  shows "\<exists>t'. tf_transpose t (swap_dims (length (shape t)) d) = Inr t' \<and>
           shape t' = map (\<lambda>a. shape t ! a) (map nat (swap_dims (length (shape t)) d))"
  using is_permutation_swap_dims[OF assms] by (simp add: tf_transpose_def Let_def)

lemma gather_in_dim_succeeds:
  assumes d: "d < length (shape params)"
    and rng: "list_all (\<lambda>i. 0 \<le> i \<and> i < int (shape params ! d)) indices"
  shows "\<exists>r. gather_in_dim params indices (int d) = Inr r \<and>
           shape r = (shape params)[d := length indices]"
proof (cases "d = 0")
  case True
  with d obtain d0 ds where sh: "shape params = d0 # ds" by (cases "shape params") auto
  with rng True show ?thesis by (simp add: gather_in_dim_def tf_gather_slices_def)
next
  case False
  let ?r = "length (shape params)"
  let ?p = "map nat (swap_dims ?r d)"
  have lp: "length ?p = ?r" by (simp add: swap_dims_def)
  from tf_transpose_swap_shape[OF d] obtain t' where
    t': "tf_transpose params (swap_dims ?r d) = Inr t'" and
    st': "shape t' = map (\<lambda>a. shape params ! a) ?p" by blast
  have r0: "0 < ?r" using d by (cases "shape params") simp_all
  have hd0: "shape t' ! 0 = shape params ! d"
    using st' lp r0 swap_dims_nat[OF d r0] False by auto
  obtain e es where sh': "shape t' = e # es" using st' lp r0 by (cases "shape t'") auto
  with hd0 have e: "e = shape params ! d" by simp
  let ?g = "\<lparr>shape = length indices # es,
             elems = concat (map (\<lambda>i. take (prod_list es)
                               (drop (nat i * prod_list es) (elems t'))) indices)\<rparr>"
  have g: "tf_gather_slices t' indices = Inr ?g"
    using rng sh' e by (simp add: tf_gather_slices_def)
  have rk: "length (shape ?g) = ?r" using sh' st' lp by (metis length_map length_Cons select_convs(1))
  have perm: "is_permutation (swap_dims ?r d) (length (shape ?g))"
    using is_permutation_swap_dims[OF d] rk by simp
  let ?res = "\<lparr>shape = map (\<lambda>a. shape ?g ! a) ?p,
               elems = map (\<lambda>k. elems ?g !
                                 ravel (shape ?g)
                                   (map (\<lambda>a. unravel (map (\<lambda>a. shape ?g ! a) ?p) k ! position_of a ?p)
                                      [0..<length ?p]))
                           [0..<prod_list (map (\<lambda>a. shape ?g ! a) ?p)]\<rparr>"
  have res: "tf_transpose ?g (swap_dims ?r d) = Inr ?res"
    using perm by (simp add: tf_transpose_def Let_def del: map_map)
  have "map (\<lambda>a. shape ?g ! a) ?p = (shape params)[d := length indices]"
  proof (rule nth_equalityI)
    show "length (map (\<lambda>a. shape ?g ! a) ?p) = length ((shape params)[d := length indices])"
      using lp by simp
  next
    fix b assume "b < length (map (\<lambda>a. shape ?g ! a) ?p)"
    then have b: "b < ?r" using lp by simp
    have pb: "?p ! b = (if b = d then 0 else if b = 0 then d else b)"
      using swap_dims_nat[OF d b] .
    have es: "es ! (c - 1) = shape params ! (?p ! c)" if "0 < c" "c < ?r" for c
    proof -
      have "es ! (c - 1) = shape t' ! c" using sh' that by (cases c) simp_all
      then show ?thesis using st' that lp by simp
    qed
    show "map (\<lambda>a. shape ?g ! a) ?p ! b = (shape params)[d := length indices] ! b"
    proof (cases "b = d")
      case True
      then show ?thesis using b lp pb by simp
    next
      case nd: False
      show ?thesis
      proof (cases "b = 0")
        case True
        have "es ! (d - 1) = shape params ! (?p ! d)" using es[of d] False d by simp
        also have "?p ! d = 0" using swap_dims_nat[OF d d] by simp
        finally show ?thesis using True b lp pb nd False by (simp add: nth_Cons')
      next
        case b0: False
        have "es ! (b - 1) = shape params ! (?p ! b)" using es[of b] b0 b by simp
        then show ?thesis using b lp pb nd b0 by (simp add: nth_Cons')
      qed
    qed
  qed
  then have "shape ?res = (shape params)[d := length indices]" by simp
  moreover have "gather_in_dim params indices (int d) = Inr ?res"
    using gather_in_dim_unfold[of d params indices] False d t' g res by simp
  ultimately show ?thesis by blast
qed


text \<open>
  Claim C4, amended. For a well-formed tensor, a valid axis \<open>dim\<close> and indices
  that are valid on that axis, \<open>gather_in_dim(params, idx, dim)\<close> equals
  \<open>gather_in_dim(params', idx, 0)\<close> transposed back by the same swap of axes
  \<open>0\<close> and \<open>dim\<close>, where \<open>params'\<close> is \<open>params\<close> with axes \<open>0\<close> and \<open>dim\<close>
  swapped: the gathered axis stays at position \<open>dim\<close>, with the size of the index
  vector.
\<close>

theorem gather_in_dim_transpose_back:
  assumes "well_formed params" and "d < length (shape params)"
    and "list_all (\<lambda>i. 0 \<le> i \<and> i < int (shape params ! d)) indices"
  shows "\<exists>params' g r.
           tf_transpose params (swap_dims (length (shape params)) d) = Inr params' \<and>
           gather_in_dim params' indices 0 = Inr g \<and>
           tf_transpose g (swap_dims (length (shape params)) d) = Inr r \<and>
           gather_in_dim params indices (int d) = Inr r \<and>
           shape r = (shape params)[d := length indices]"
proof -
  from gather_in_dim_succeeds[OF assms(2,3)] obtain r where
    r: "gather_in_dim params indices (int d) = Inr r"
    and sr: "shape r = (shape params)[d := length indices]" by blast
  show ?thesis
  proof (cases "d = 0")
    case True
    have g: "tf_gather_slices params indices = Inr r"
      using r True by (simp add: gather_in_dim_def)
    from tf_gather_slices_well_formed[OF assms(1) g]
    have wr: "well_formed r" and lr: "length (shape r) = length (shape params)" by simp_all
    have "tf_transpose params (swap_dims (length (shape params)) d) = Inr params"
      using tf_transpose_identity[OF assms(1)] True by (simp add: swap_dims_zero)
    moreover have "gather_in_dim params indices 0 = Inr r"
      using g by (simp add: gather_in_dim_def)
    moreover have "tf_transpose r (swap_dims (length (shape params)) d) = Inr r"
      using tf_transpose_identity[OF wr] True lr by (simp add: swap_dims_zero)
    ultimately show ?thesis using r sr by blast
  next
    case False
    then have pos: "0 < d" by simp
    from tf_transpose_swap_shape[OF assms(2)] obtain t' where
      t': "tf_transpose params (swap_dims (length (shape params)) d) = Inr t'" by blast
    from gather_in_dim_unfold[OF pos assms(2), of indices] r t'
    have chain: "(case tf_gather_slices t' indices of
                    Inl e \<Rightarrow> Inl e
                  | Inr gathered \<Rightarrow> tf_transpose gathered (swap_dims (length (shape params)) d))
                 = Inr r"
      by simp
    then obtain g where g: "tf_gather_slices t' indices = Inr g"
      and bk: "tf_transpose g (swap_dims (length (shape params)) d) = Inr r"
      by (cases "tf_gather_slices t' indices") auto
    have "gather_in_dim t' indices 0 = Inr g" using g by (simp add: gather_in_dim_def)
    with t' bk r sr show ?thesis by blast
  qed
qed

theorem gather_in_dim_transpose_back_witness:
  "\<exists>params' g r.
     tf_transpose \<lparr>shape = [2, 3], elems = [1, 2, 3, 4, 5, 6 :: int]\<rparr> (swap_dims 2 1) = Inr params' \<and>
     gather_in_dim params' [2, 0] 0 = Inr g \<and>
     tf_transpose g (swap_dims 2 1) = Inr r \<and>
     gather_in_dim \<lparr>shape = [2, 3], elems = [1, 2, 3, 4, 5, 6 :: int]\<rparr> [2, 0] 1 = Inr r \<and>
     shape r = [2, 2]"
proof -
  let ?t = "\<lparr>shape = [2, 3], elems = [1, 2, 3, 4, 5, 6 :: int]\<rparr>"
  have wf: "well_formed ?t" by (simp add: well_formed_def)
  have d: "1 < length (shape ?t)" by simp
  have rng: "list_all (\<lambda>i. 0 \<le> i \<and> i < int (shape ?t ! 1)) [2, 0]" by simp
  from gather_in_dim_transpose_back[OF wf d rng] show ?thesis
    by (simp add: eval_nat_numeral)
qed

text \<open>
  Without the transposition back the two sides differ: gathering column \<open>0\<close> of a
  \<open>[2, 3]\<close> matrix along axis \<open>1\<close> gives a \<open>[2, 1]\<close> tensor, gathering row \<open>0\<close>
  of its transpose a \<open>[1, 2]\<close> tensor.
\<close>

theorem gather_in_dim_pretransposed_counterexample:
  "tf_transpose \<lparr>shape = [2, 3], elems = [1, 2, 3, 4, 5, 6 :: int]\<rparr> (swap_dims 2 1) =
     Inr \<lparr>shape = [3, 2], elems = [1, 4, 2, 5, 3, 6]\<rparr> \<and>
   gather_in_dim \<lparr>shape = [3, 2], elems = [1, 4, 2, 5, 3, 6 :: int]\<rparr> [0] 0 =
     Inr \<lparr>shape = [1, 2], elems = [1, 4]\<rparr> \<and>
   gather_in_dim \<lparr>shape = [2, 3], elems = [1, 2, 3, 4, 5, 6 :: int]\<rparr> [0] 1 =
     Inr \<lparr>shape = [2, 1], elems = [1, 4]\<rparr>"
  by code_simp

section \<open>Properties of the segment reductions\<close>

lemma segment_rows_map:
  "segment_rows (map f xs) ids g = map f (segment_rows xs ids g)"
proof (induction xs arbitrary: ids)
  case Nil
  then show ?case by (simp add: segment_rows_def)
next
  case (Cons x xs)
  show ?case
  proof (cases ids)
    case Nil
    then show ?thesis by (simp add: segment_rows_def)
  next
    case (Cons i rest)
    with Cons.IH[of rest] show ?thesis by (simp add: segment_rows_def)
  qed
qed

lemma segment_rows_map2:
  "length xs = length ids \<Longrightarrow>
   segment_rows (map2 (\<lambda>x i. h i x) xs ids) ids g = map (h g) (segment_rows xs ids g)"
  by (induction xs ids rule: list_induct2) (simp_all add: segment_rows_def)

lemma segment_rows_member:
  "length xs = length ids \<Longrightarrow> i < length ids \<Longrightarrow> xs ! i \<in> set (segment_rows xs ids (ids ! i))"
proof -
  assume len: "length xs = length ids" and i: "i < length ids"
  then have "(xs ! i, ids ! i) \<in> set (zip xs ids)"
    by (metis in_set_conv_nth length_zip min.idem nth_zip)
  then have "(xs ! i, ids ! i) \<in> set (filter (\<lambda>p. snd p = ids ! i) (zip xs ids))" by simp
  then show ?thesis unfolding segment_rows_def by (metis fst_conv image_eqI set_map)
qed

lemma segment_rows_subset: "set (segment_rows xs ids g) \<subseteq> set xs"
  by (auto simp: segment_rows_def dest: set_zip_leftD)

lemma sorted_id_in_range:
  assumes "sorted ids" and "\<forall>g \<in> set ids. 0 \<le> g" and "i < length ids"
  shows "0 \<le> ids ! i \<and> ids ! i < int (num_segments ids)"
proof -
  have ne: "ids \<noteq> []" using assms(3) by auto
  have "ids ! i \<le> last ids"
    using assms(1,3) ne by (simp add: last_conv_nth sorted_iff_nth_mono)
  moreover have "0 \<le> ids ! i" using assms(2,3) by simp
  ultimately show ?thesis using ne by (simp add: num_segments_def)
qed

lemma tf_gather_segments:
  assumes "sorted ids" and "\<forall>g \<in> set ids. 0 \<le> g"
  shows "tf_gather (map (\<lambda>g. f (int g)) [0..<num_segments ids]) ids = Inr (map f ids)"
proof -
  have rng: "\<forall>i \<in> set ids. 0 \<le> i \<and> i < int (num_segments ids)"
  proof
    fix g assume "g \<in> set ids"
    then obtain i where "i < length ids" "ids ! i = g" by (metis in_set_conv_nth)
    with sorted_id_in_range[OF assms] show "0 \<le> g \<and> g < int (num_segments ids)" by blast
  qed
  have "map (\<lambda>g. f (int g)) [0..<num_segments ids] ! nat i = f i" if "i \<in> set ids" for i
  proof -
    have "0 \<le> i" "nat i < num_segments ids" using rng that by auto
    then show ?thesis by simp
  qed
  then have "map (\<lambda>i. map (\<lambda>g. f (int g)) [0..<num_segments ids] ! nat i) ids = map f ids"
    by (intro map_cong) auto
  with rng show ?thesis by (simp add: tf_gather_def list_all_iff)
qed

lemma row_max_Max:
  assumes "xs \<noteq> []"
  shows "row_max xs = Max (set xs)"
proof (cases xs)
  case Nil
  with assms show ?thesis by simp
next
  case (Cons a list)
  have "Max (set (a # list)) = fold max list a" by (rule Max.set_eq_fold)
  then show ?thesis using Cons by simp
qed

lemma Max_concat:
  assumes "rows \<noteq> []" and "\<forall>r \<in> set rows. r \<noteq> []"
  shows "Max (set (map row_max rows)) = Max (set (concat rows))"
  using assms
proof (induction rows)
  case Nil
  then show ?case by simp
next
  case (Cons r rows)
  have r: "r \<noteq> []" using Cons.prems by simp
  show ?case
  proof (cases "rows = []")
    case True
    then show ?thesis using r by (simp add: row_max_Max)
  next
    case False
    then have ih: "Max (set (map row_max rows)) = Max (set (concat rows))"
      using Cons by simp
    have ne: "set (concat rows) \<noteq> {}" using False Cons.prems
      by (cases rows) auto
    have "Max (set (concat (r # rows))) = max (Max (set r)) (Max (set (concat rows)))"
      using r ne by (simp add: Max_Un)
    moreover have "Max (set (map row_max (r # rows))) = max (row_max r) (Max (set (map row_max rows)))"
      using False by simp
    ultimately show ?thesis using ih r by (simp add: row_max_Max)
  qed
qed

lemma group_max_cells:
  assumes "\<forall>r \<in> set rows. r \<noteq> []" and "segment_rows rows ids g \<noteq> []"
  shows "row_max (segment_rows (map row_max rows) ids g) = Max (set (group_cells rows ids g))"
proof -
  have ne: "\<forall>r \<in> set (segment_rows rows ids g). r \<noteq> []"
    using assms(1) segment_rows_subset by fastforce
  have "row_max (segment_rows (map row_max rows) ids g)
        = row_max (map row_max (segment_rows rows ids g))"
    by (simp add: segment_rows_map)
  also have "\<dots> = Max (set (map row_max (segment_rows rows ids g)))"
    using assms(2) by (intro row_max_Max) simp
  also have "\<dots> = Max (set (group_cells rows ids g))"
    unfolding group_cells_def by (rule Max_concat[OF assms(2) ne])
  finally show ?thesis .
qed


lemma broadcast_cols_same:
  "length grid = length col \<Longrightarrow>
   broadcast_cols f grid col = Inr (map2 (\<lambda>row c. map (\<lambda>x. f x c) row) grid col)"
  by (simp add: broadcast_cols_def broadcast_op_def)

lemma map2_map_right: "map2 f xs (map h ys) = map2 (\<lambda>x y. f x (h y)) xs ys"
  by (simp add: zip_map2 case_prod_unfold comp_def)

lemma sum_list_concat_map:
  fixes h :: "'a \<Rightarrow> 'b :: monoid_add"
  shows "sum_list (map h (concat xss)) = sum_list (map (\<lambda>xs. sum_list (map h xs)) xss)"
  by (induction xss) simp_all

lemma segment_sum_rows:
  assumes "length rows = length ids"
  shows "sum_list (segment_rows (map sum_list (map2 (\<lambda>row i. map (h i) row) rows ids)) ids g)
         = sum_list (map (h g) (group_cells rows ids g))"
proof -
  have "segment_rows (map sum_list (map2 (\<lambda>row i. map (h i) row) rows ids)) ids g
        = map sum_list (segment_rows (map2 (\<lambda>row i. map (h i) row) rows ids) ids g)"
    by (rule segment_rows_map)
  also have "\<dots> = map sum_list (map (map (h g)) (segment_rows rows ids g))"
    using segment_rows_map2[OF assms, of "\<lambda>i row. map (h i) row" g] by (simp only:)
  finally have "segment_rows (map sum_list (map2 (\<lambda>row i. map (h i) row) rows ids)) ids g
        = map sum_list (map (map (h g)) (segment_rows rows ids g))" .
  then show ?thesis
    by (simp add: group_cells_def sum_list_concat_map comp_def)
qed

lemma segment_softmax_rows:
  assumes len: "length scores = length ids" and srt: "sorted ids" and nn: "\<forall>g \<in> set ids. 0 \<le> g"
  shows "segment_softmax scores ids =
           Inr (map2 (\<lambda>row g. map (\<lambda>x.
                    exp (x - row_max (segment_rows (map row_max scores) ids g)) /
                    sum_list (map (\<lambda>y. exp (y - row_max (segment_rows (map row_max scores) ids g)))
                                (group_cells scores ids g))) row)
                  scores ids)"
proof -
  define Mg where "Mg g = row_max (segment_rows (map row_max scores) ids g)" for g
  define Sg where "Sg g = sum_list (map (\<lambda>y. exp (y - Mg g)) (group_cells scores ids g))" for g
  define scores_exp where "scores_exp = map2 (\<lambda>row g. map (\<lambda>x. exp (x - Mg g)) row) scores ids"
  have ok: "segment_ids_ok ids" using srt nn by (simp add: segment_ids_ok_def list_all_iff)
  have s1: "tf_segment_max (map row_max scores) ids = Inr (map (\<lambda>g. Mg (int g)) [0..<num_segments ids])"
    using len ok by (simp add: tf_segment_max_def Mg_def)
  have s2: "tf_gather (map (\<lambda>g. Mg (int g)) [0..<num_segments ids]) ids = Inr (map Mg ids)"
    by (rule tf_gather_segments[OF srt nn])
  have s3: "broadcast_cols (-) scores (map Mg ids)
            = Inr (map2 (\<lambda>row g. map (\<lambda>x. x - Mg g) row) scores ids)"
    using len by (simp add: broadcast_cols_same map2_map_right)
  have s4: "map (map exp) (map2 (\<lambda>row g. map (\<lambda>x. x - Mg g) row) scores ids) = scores_exp"
    by (simp add: scores_exp_def comp_def case_prod_unfold)
  have lse: "length scores_exp = length ids" using len by (simp add: scores_exp_def)
  have s5: "tf_segment_sum (map sum_list scores_exp) ids
            = Inr (map (\<lambda>g. Sg (int g)) [0..<num_segments ids])"
    using lse ok segment_sum_rows[OF len, of "\<lambda>g y. exp (y - Mg g)"]
    by (simp add: tf_segment_sum_def Sg_def scores_exp_def)
  have s6: "tf_gather (map (\<lambda>g. Sg (int g)) [0..<num_segments ids]) ids = Inr (map Sg ids)"
    by (rule tf_gather_segments[OF srt nn])
  have s7: "broadcast_cols (/) scores_exp (map Sg ids)
            = Inr (map2 (\<lambda>row g. map (\<lambda>x. x / Sg g) row) scores_exp ids)"
    using lse by (simp add: broadcast_cols_same map2_map_right)
  have s8: "map2 (\<lambda>row g. map (\<lambda>x. x / Sg g) row) scores_exp ids
            = map2 (\<lambda>row g. map (\<lambda>x. exp (x - Mg g) / Sg g) row) scores ids"
    using len by (intro nth_equalityI) (simp_all add: scores_exp_def)
  have "segment_softmax scores ids
        = Inr (map2 (\<lambda>row g. map (\<lambda>x. exp (x - Mg g) / Sg g) row) scores ids)"
    by (simp add: segment_softmax_def s1 s2 s3 s4 s5 s6 s7 s8 Let_def del: map_map)
  then show ?thesis by (simp add: Mg_def Sg_def)
qed


lemma softmax_shift:
  fixes G :: "real list"
  shows "exp (s - M) / sum_list (map (\<lambda>x. exp (x - M)) G) = exp s / sum_list (map exp G)"
proof -
  have "sum_list (map (\<lambda>x. exp (x - M)) G) = sum_list (map exp G) / exp M"
    by (induction G) (simp_all add: exp_diff add_divide_distrib)
  then show ?thesis by (simp add: exp_diff)
qed

text \<open>
  Claim C1, amended. For a real matrix of shape \<open>[n, m]\<close> and a partition vector
  of length \<open>n\<close> whose ids are non-negative and non-decreasing (as the segment
  reductions require; equal ids are then adjacent), \<open>segment_softmax\<close> returns a
  matrix of shape \<open>[n, m]\<close> with
  \<open>probs[i][j] = exp(scores[i][j] - M) / sum of exp(x - M) over all cells x of the
  rows with the id of row i\<close>, where \<open>M\<close> is the largest of those cells; over the
  reals this is the softmax normalised over all cells of the group, not per row.
\<close>

theorem segment_softmax_joint:
  assumes "length scores = length ids" and "\<forall>row \<in> set scores. length row = m"
    and "sorted ids" and "\<forall>g \<in> set ids. 0 \<le> g"
  shows "\<exists>probs. segment_softmax scores ids = Inr probs \<and> length probs = length scores \<and>
           (\<forall>i < length scores. length (probs ! i) = m \<and>
              (\<forall>j < m.
                 probs ! i ! j =
                   exp (scores ! i ! j - Max (set (group_cells scores ids (ids ! i)))) /
                   sum_list (map (\<lambda>x. exp (x - Max (set (group_cells scores ids (ids ! i)))))
                               (group_cells scores ids (ids ! i))) \<and>
                 probs ! i ! j =
                   exp (scores ! i ! j) / sum_list (map exp (group_cells scores ids (ids ! i)))))"
proof -
  let ?Mg = "\<lambda>g. row_max (segment_rows (map row_max scores) ids g)"
  let ?probs = "map2 (\<lambda>row g. map (\<lambda>x. exp (x - ?Mg g) /
                    sum_list (map (\<lambda>y. exp (y - ?Mg g)) (group_cells scores ids g))) row)
                  scores ids"
  have res: "segment_softmax scores ids = Inr ?probs"
    by (rule segment_softmax_rows[OF assms(1,3,4)])
  have lp: "length ?probs = length scores" using assms(1) by simp
  have cellwise: "length (?probs ! i) = m \<and>
              (\<forall>j < m.
                 ?probs ! i ! j =
                   exp (scores ! i ! j - Max (set (group_cells scores ids (ids ! i)))) /
                   sum_list (map (\<lambda>x. exp (x - Max (set (group_cells scores ids (ids ! i)))))
                               (group_cells scores ids (ids ! i))) \<and>
                 ?probs ! i ! j =
                   exp (scores ! i ! j) / sum_list (map exp (group_cells scores ids (ids ! i))))"
    if i: "i < length scores" for i
  proof -
    have li: "length (scores ! i) = m" using assms(2) i by simp
    have row: "?probs ! i = map (\<lambda>x. exp (x - ?Mg (ids ! i)) /
                    sum_list (map (\<lambda>y. exp (y - ?Mg (ids ! i))) (group_cells scores ids (ids ! i))))
                  (scores ! i)"
      using i assms(1) by simp
    have lrow: "length (?probs ! i) = m" unfolding row using li by simp
    have cell: "?probs ! i ! j =
            exp (scores ! i ! j - Max (set (group_cells scores ids (ids ! i)))) /
            sum_list (map (\<lambda>x. exp (x - Max (set (group_cells scores ids (ids ! i)))))
                        (group_cells scores ids (ids ! i))) \<and>
          ?probs ! i ! j =
            exp (scores ! i ! j) / sum_list (map exp (group_cells scores ids (ids ! i)))"
      if j: "j < m" for j
    proof -
      have ne: "\<forall>r \<in> set scores. r \<noteq> []" using assms(2) j by auto
      have grp: "segment_rows scores ids (ids ! i) \<noteq> []"
        using segment_rows_member[OF assms(1), of i] i assms(1) by auto
      have mg: "?Mg (ids ! i) = Max (set (group_cells scores ids (ids ! i)))"
        by (rule group_max_cells[OF ne grp])
      have "?probs ! i ! j = exp (scores ! i ! j - ?Mg (ids ! i)) /
              sum_list (map (\<lambda>y. exp (y - ?Mg (ids ! i))) (group_cells scores ids (ids ! i)))"
        unfolding row using j li by simp
      then show ?thesis unfolding mg by (simp add: softmax_shift)
    qed
    show ?thesis using lrow cell by blast
  qed
  show ?thesis
    using res lp cellwise by blast
qed

theorem segment_softmax_joint_witness:
  "\<exists>probs. segment_softmax [[0, 0], [0, 0], [0, 0]] [0, 0, 1] = Inr probs \<and>
     probs ! 0 ! 0 = 1 / 4 \<and> probs ! 1 ! 1 = 1 / 4 \<and> probs ! 2 ! 0 = 1 / 2"
proof -
  let ?scores = "[[0, 0], [0, 0], [0, 0 :: real]]" and ?ids = "[0, 0, 1 :: int]"
  have a: "length ?scores = length ?ids" "\<forall>row \<in> set ?scores. length row = 2"
    "sorted ?ids" "\<forall>g \<in> set ?ids. 0 \<le> g"
    by simp_all
  from segment_softmax_joint[OF a] obtain probs where
    p: "segment_softmax ?scores ?ids = Inr probs" and
    q: "\<forall>i < length ?scores. length (probs ! i) = 2 \<and>
          (\<forall>j < 2. probs ! i ! j =
                   exp (?scores ! i ! j - Max (set (group_cells ?scores ?ids (?ids ! i)))) /
                   sum_list (map (\<lambda>x. exp (x - Max (set (group_cells ?scores ?ids (?ids ! i)))))
                               (group_cells ?scores ?ids (?ids ! i))) \<and>
                 probs ! i ! j =
                   exp (?scores ! i ! j) / sum_list (map exp (group_cells ?scores ?ids (?ids ! i))))"
    by blast
  have i: "(0 :: nat) < length ?scores" "(1 :: nat) < length ?scores" "(2 :: nat) < length ?scores"
    and j: "(0 :: nat) < 2" "(1 :: nat) < 2"
    by simp_all
  have "probs ! 0 ! 0 = exp (?scores ! 0 ! 0) / sum_list (map exp (group_cells ?scores ?ids (?ids ! 0)))"
    using q i(1) j(1) by blast
  moreover have "probs ! 1 ! 1 = exp (?scores ! 1 ! 1) / sum_list (map exp (group_cells ?scores ?ids (?ids ! 1)))"
    using q i(2) j(2) by blast
  moreover have "probs ! 2 ! 0 = exp (?scores ! 2 ! 0) / sum_list (map exp (group_cells ?scores ?ids (?ids ! 2)))"
    using q i(3) j(1) by blast
  ultimately show ?thesis
    using p by (simp add: group_cells_def segment_rows_def)
qed

text \<open>
  Adjacent equal ids are not enough: the ids \<open>[1, 0]\<close> are not non-decreasing and
  the segment reduction rejects them.
\<close>

theorem segment_softmax_unsorted_counterexample:
  "segment_softmax [[0], [0]] [1, 0] = Inl InvalidArgument"
  by (simp add: segment_softmax_def tf_segment_max_def segment_ids_ok_def)

section \<open>Properties of the segment argmax\<close>

lemma zip_as_indices:
  "length xs = length ids \<Longrightarrow> zip xs ids = map (\<lambda>i. (xs ! i, ids ! i)) [0..<length ids]"
  by (rule nth_equalityI) simp_all

lemma segment_rows_indices:
  assumes "length xs = length ids"
  shows "segment_rows xs ids g = map ((!) xs) (filter (\<lambda>i. ids ! i = g) [0..<length ids])"
  by (simp add: segment_rows_def zip_as_indices[OF assms] filter_map comp_def)

lemma count_group_cells:
  assumes "length rows = length ids"
  shows "count_list (group_cells rows ids g) v =
           (\<Sum>i \<in> {i. i < length ids \<and> ids ! i = g}. count_list (rows ! i) v)"
proof -
  have d: "distinct (filter (\<lambda>i. ids ! i = g) [0..<length ids])" by simp
  have "count_list (group_cells rows ids g) v
        = sum_list (map (\<lambda>i. count_list (rows ! i) v) (filter (\<lambda>i. ids ! i = g) [0..<length ids]))"
    by (simp add: group_cells_def count_list_concat segment_rows_indices[OF assms] comp_def)
  also have "\<dots> = (\<Sum>i \<in> set (filter (\<lambda>i. ids ! i = g) [0..<length ids]). count_list (rows ! i) v)"
    using d by (rule sum_list_distinct_conv_sum_set)
  also have "set (filter (\<lambda>i. ids ! i = g) [0..<length ids]) = {i. i < length ids \<and> ids ! i = g}"
    by auto
  finally show ?thesis .
qed

lemma sum_by_group:
  fixes c :: "nat \<Rightarrow> nat"
  shows "(\<Sum>i < length ids. c i) = (\<Sum>g \<in> set ids. \<Sum>i \<in> {i. i < length ids \<and> ids ! i = g}. c i)"
proof -
  have "(\<Sum>i \<in> {..<length ids}. c i)
        = (\<Sum>g \<in> (\<lambda>i. ids ! i) ` {..<length ids}. \<Sum>i \<in> {i \<in> {..<length ids}. ids ! i = g}. c i)"
    by (rule sum.image_gen) simp
  moreover have "(\<lambda>i. ids ! i) ` {..<length ids} = set ids"
    by (auto simp: in_set_conv_nth)
  moreover have "{i \<in> {..<length ids}. ids ! i = g} = {i. i < length ids \<and> ids ! i = g}" for g
    by auto
  ultimately show ?thesis by simp
qed

lemma count_true_cells:
  "sum_list (map cast_bool_int64 (map (\<lambda>x. x = v) row)) = int (count_list row v)"
  by (induction row) (simp_all add: cast_bool_int64_def)

lemma rectangular_group_max:
  assumes rect: "\<forall>row \<in> set rows. length row = m" and len: "length rows = length ids"
    and g: "g \<in> set ids"
  shows "count_list (group_cells rows ids g) (row_max (segment_rows (map row_max rows) ids g))
         = maximal_cells rows ids g"
proof (cases "m = 0")
  case True
  then have "\<forall>row \<in> set (segment_rows rows ids g). row = []"
    using rect segment_rows_subset by fastforce
  then have "group_cells rows ids g = []" by (simp add: group_cells_def)
  then show ?thesis by (simp add: maximal_cells_def)
next
  case False
  then have ne: "\<forall>r \<in> set rows. r \<noteq> []" using rect by auto
  from g obtain i where i: "i < length ids" "ids ! i = g" by (metis in_set_conv_nth)
  have "segment_rows rows ids g \<noteq> []"
    using segment_rows_member[OF len i(1)] i(2) by auto
  from group_max_cells[OF ne this] show ?thesis by (simp add: maximal_cells_def)
qed

lemma is_max_count_groups:
  assumes rect: "\<forall>row \<in> set rows. length row = m" and len: "length rows = length ids"
  shows "sum_list (map (\<lambda>r. sum_list (map cast_bool_int64 r))
            (map2 (\<lambda>row g. map (\<lambda>x. x = row_max (segment_rows (map row_max rows) ids g)) row)
               rows ids))
         = int (\<Sum>g \<in> set ids. maximal_cells rows ids g)"
proof -
  let ?Mg = "\<lambda>g. row_max (segment_rows (map row_max rows) ids g)"
  have "map (\<lambda>r. sum_list (map cast_bool_int64 r))
            (map2 (\<lambda>row g. map (\<lambda>x. x = ?Mg g) row) rows ids)
        = map (\<lambda>i. int (count_list (rows ! i) (?Mg (ids ! i)))) [0..<length ids]"
    using len by (intro nth_equalityI) (simp_all add: count_true_cells[unfolded map_map])
  then have "sum_list (map (\<lambda>r. sum_list (map cast_bool_int64 r))
            (map2 (\<lambda>row g. map (\<lambda>x. x = ?Mg g) row) rows ids))
        = (\<Sum>i < length ids. int (count_list (rows ! i) (?Mg (ids ! i))))"
    by (simp add: interv_sum_list_conv_sum_set_nat atLeast0LessThan)
  also have "\<dots> = int (\<Sum>i < length ids. count_list (rows ! i) (?Mg (ids ! i)))" by simp
  also have "(\<Sum>i < length ids. count_list (rows ! i) (?Mg (ids ! i)))
        = (\<Sum>g \<in> set ids. \<Sum>i \<in> {i. i < length ids \<and> ids ! i = g}.
              count_list (rows ! i) (?Mg (ids ! i)))"
    by (rule sum_by_group)
  also have "\<dots> = (\<Sum>g \<in> set ids. count_list (group_cells rows ids g) (?Mg g))"
    by (intro sum.cong refl) (simp add: count_group_cells[OF len])
  also have "\<dots> = (\<Sum>g \<in> set ids. maximal_cells rows ids g)"
    by (intro sum.cong refl) (rule rectangular_group_max[OF rect len])
  finally show ?thesis .
qed

lemma select_maxima_no_assertion: "select_maxima x \<noteq> Inl AssertionFailed"
  by (auto simp: select_maxima_def Let_def tf_gather_squeezed_def tf_gather_def
      tf_argmax_axis1_def map_gathered_def
      split: sum.splits squeezed.splits gathered.splits if_splits)

lemma segment_argmax_unfold:
  assumes len: "length input = length ids" and rect: "\<forall>row \<in> set input. length row = m"
    and srt: "sorted ids" and nn: "\<forall>g \<in> set ids. 0 \<le> g"
  shows "segment_argmax input ids =
           (if reduce_max_int64 ids + 1 \<noteq> int (\<Sum>g \<in> set ids. maximal_cells input ids g)
            then Inl AssertionFailed
            else select_maxima (is_max_cells input ids))"
proof -
  define Mg where "Mg g = row_max (segment_rows (map row_max input) ids g)" for g
  have ok: "segment_ids_ok ids" using srt nn by (simp add: segment_ids_ok_def list_all_iff)
  have s1: "tf_segment_max (map row_max input) ids = Inr (map (\<lambda>g. Mg (int g)) [0..<num_segments ids])"
    using len ok by (simp add: tf_segment_max_def Mg_def)
  have s2: "tf_gather (map (\<lambda>g. Mg (int g)) [0..<num_segments ids]) ids = Inr (map Mg ids)"
    by (rule tf_gather_segments[OF srt nn])
  have s3: "broadcast_cols (=) input (map Mg ids) = Inr (is_max_cells input ids)"
    using len by (simp add: broadcast_cols_same map2_map_right is_max_cells_def Mg_def)
  have cnt: "sum_list (map (\<lambda>r. sum_list (map cast_bool_int64 r)) (is_max_cells input ids))
             = int (\<Sum>g \<in> set ids. maximal_cells input ids g)"
    unfolding is_max_cells_def by (rule is_max_count_groups[OF rect len])
  show ?thesis
    by (simp add: segment_argmax_def s1 s2 s3 cnt Let_def select_maxima_def del: map_map)
qed

lemma segment_argmax_assertion:
  assumes "length input = length ids" and "\<forall>row \<in> set input. length row = m"
    and "sorted ids" and "\<forall>g \<in> set ids. 0 \<le> g" and "ids \<noteq> []"
  shows "segment_argmax input ids = Inl AssertionFailed \<longleftrightarrow>
           Max (set ids) + 1 \<noteq> int (\<Sum>g \<in> set ids. maximal_cells input ids g)"
proof -
  have "0 \<le> Max (set ids)" using assms(4,5) by simp
  then have "reduce_max_int64 ids = Max (set ids)"
    using reduce_max_int64_Max[OF assms(5)] by simp
  then show ?thesis
    using segment_argmax_unfold[OF assms(1-4)] select_maxima_no_assertion by auto
qed


text \<open>
  Claim C10, amended. The assertion of \<open>segment_argmax\<close> compares the number of
  maximal cells of the whole input with \<open>max(partition) + 1\<close>, not with the
  number of distinct ids. So for a partition vector of non-negative,
  non-decreasing ids with a gap, an id in \<open>[0, max(partition)]\<close> that no row
  carries, the assertion fails when every group that has rows has exactly one
  maximal cell.
\<close>

theorem segment_argmax_gap_fails:
  assumes "length input = length ids" and "\<forall>row \<in> set input. length row = m"
    and "sorted ids" and "\<forall>g \<in> set ids. 0 \<le> g" and "ids \<noteq> []"
    and "0 \<le> h" and "h \<le> Max (set ids)" and "h \<notin> set ids"
    and "\<forall>g \<in> set ids. maximal_cells input ids g = 1"
  shows "segment_argmax input ids = Inl AssertionFailed"
proof -
  have "(\<Sum>g \<in> set ids. maximal_cells input ids g) = card (set ids)"
    using assms(9) by simp
  moreover have "int (card (set ids)) < Max (set ids) + 1"
  proof -
    have "set ids \<subseteq> {0..Max (set ids)} - {h}"
      using assms(4,8) by auto
    then have "card (set ids) \<le> card ({0..Max (set ids)} - {h})"
      by (intro card_mono) simp_all
    also have "\<dots> = card {0..Max (set ids)} - 1"
      using assms(6,7) by simp
    finally have "card (set ids) \<le> nat (Max (set ids) + 1) - 1" by simp
    moreover have "0 \<le> Max (set ids)" using assms(6,7) by simp
    ultimately show ?thesis by linarith
  qed
  ultimately show ?thesis
    using segment_argmax_assertion[OF assms(1-5)] by simp
qed

theorem segment_argmax_gap_fails_witness:
  "segment_argmax [[1], [2], [3]] [0, 0, 2] = Inl AssertionFailed"
proof -
  let ?input = "[[1], [2], [3 :: real]]" and ?ids = "[0, 0, 2 :: int]"
  have a: "length ?input = length ?ids" "\<forall>row \<in> set ?input. length row = 1"
    "sorted ?ids" "\<forall>g \<in> set ?ids. 0 \<le> g" "?ids \<noteq> []"
    by simp_all
  have h: "(0 :: int) \<le> 1" "1 \<le> Max (set ?ids)" "1 \<notin> set ?ids" by simp_all
  have u: "\<forall>g \<in> set ?ids. maximal_cells ?input ?ids g = 1"
    by (simp add: maximal_cells_def group_cells_def segment_rows_def)
  from segment_argmax_gap_fails[OF a h u] show ?thesis .
qed

text \<open>
  Two restrictions are needed. Ids that are not non-decreasing are rejected by the
  segment reduction before the assertion is reached: \<open>[2, 0]\<close> has a gap and
  one maximal cell per group. And a tie can make up for a gap: with the ids
  \<open>[0, 0, 2]\<close> and two tied cells in group \<open>0\<close> the assertion passes.
\<close>

theorem segment_argmax_gap_counterexample:
  "segment_argmax [[1], [2]] [2, 0] = Inl InvalidArgument \<and>
   maximal_cells [[1], [2]] [2, 0] 2 = 1 \<and> maximal_cells [[1], [2]] [2, 0] 0 = 1 \<and>
   segment_argmax [[4], [4], [9]] [0, 0, 2] = Inr (Vector [0, 1, 2], [0, 0, 0]) \<and>
   maximal_cells [[4], [4], [9]] [0, 0, 2] 0 = 2"
proof -
  have u: "[0..<3] = [0, 1, 2 :: nat]" by (simp add: upt_rec)
  have "segment_argmax [[1], [2]] [2, 0] = Inl InvalidArgument"
    by (simp add: segment_argmax_def tf_segment_max_def segment_ids_ok_def)
  moreover have "maximal_cells [[1], [2]] [2, 0] 2 = 1" "maximal_cells [[1], [2]] [2, 0] 0 = 1"
    "maximal_cells [[4], [4], [9]] [0, 0, 2] 0 = 2"
    by (simp_all add: maximal_cells_def group_cells_def segment_rows_def)
  moreover have "segment_argmax [[4], [4], [9]] [0, 0, 2] = Inr (Vector [0, 1, 2], [0, 0, 0])"
    by (simp add: segment_argmax_def tf_segment_max_def segment_ids_ok_def num_segments_def
        segment_rows_def tf_gather_def broadcast_cols_def broadcast_op_def reduce_max_int64_def
        cast_bool_int64_def tf_where_def tf_squeeze_def tf_gather_squeezed_def tf_argmax_axis1_def
        map_gathered_def first_max_def u Let_def)
  ultimately show ?thesis by simp
qed

lemma sum_eq_card_iff:
  fixes f :: "'a \<Rightarrow> nat"
  assumes "finite S" and "\<forall>g \<in> S. 1 \<le> f g"
  shows "(\<Sum>g \<in> S. f g) = card S \<longleftrightarrow> (\<forall>g \<in> S. f g = 1)"
proof
  assume eq: "(\<Sum>g \<in> S. f g) = card S"
  have "(\<Sum>g \<in> S. f g) = (\<Sum>g \<in> S. (f g - 1) + 1)"
    using assms(2) by (intro sum.cong) auto
  also have "\<dots> = (\<Sum>g \<in> S. f g - 1) + (\<Sum>g \<in> S. 1)" by (rule sum.distrib)
  also have "\<dots> = (\<Sum>g \<in> S. f g - 1) + card S" by simp
  finally have "(\<Sum>g \<in> S. f g - 1) = 0" using eq by simp
  then have "\<forall>g \<in> S. f g - 1 = 0" using assms(1) by simp
  then show "\<forall>g \<in> S. f g = 1" using assms(2) by (metis diff_is_0_eq le_antisym)
next
  assume "\<forall>g \<in> S. f g = 1"
  then show "(\<Sum>g \<in> S. f g) = card S" by simp
qed

lemma maximal_cells_positive:
  assumes rect: "\<forall>row \<in> set rows. length row = m" and len: "length rows = length ids"
    and g: "g \<in> set ids" and m: "0 < m"
  shows "1 \<le> maximal_cells rows ids g"
proof -
  from g obtain i where i: "i < length ids" "ids ! i = g" by (metis in_set_conv_nth)
  have "rows ! i \<in> set (segment_rows rows ids g)"
    using segment_rows_member[OF len i(1)] i(2) by simp
  moreover have "rows ! i \<noteq> []"
  proof -
    have "rows ! i \<in> set rows" using len i(1) by simp
    then show ?thesis using rect m by auto
  qed
  ultimately have "set (group_cells rows ids g) \<noteq> {}"
    by (auto simp: group_cells_def)
  then have "Max (set (group_cells rows ids g)) \<in> set (group_cells rows ids g)"
    by (intro Max_in) simp_all
  then have "count_list (group_cells rows ids g) (Max (set (group_cells rows ids g))) \<noteq> 0"
    by (simp only: count_list_0_iff not_not)
  then show ?thesis by (simp add: maximal_cells_def)
qed

text \<open>
  Claim C3, amended. For a partition vector whose non-decreasing ids are exactly
  \<open>0, \<dots>, k\<close>, every id carried by some row, \<open>segment_argmax\<close> fails with the
  violated assertion exactly when some group does not have one single maximal
  cell: it fails whenever a group has tied maximal cells, and the assertion passes
  only when each group's maximum is attained by exactly one cell.
\<close>

theorem segment_argmax_ties_fail:
  assumes "length input = length ids" and "\<forall>row \<in> set input. length row = m"
    and "sorted ids" and "set ids = {0..int k}"
  shows "segment_argmax input ids = Inl AssertionFailed \<longleftrightarrow>
           (\<exists>g \<in> {0..int k}. maximal_cells input ids g \<noteq> 1)"
proof -
  have nn: "\<forall>g \<in> set ids. 0 \<le> g" using assms(4) by simp
  have ne: "ids \<noteq> []" using assms(4) by auto
  have "Max {0..int k} = int k" by (intro Max_eqI) simp_all
  then have mx: "Max (set ids) = int k" using assms(4) by simp
  have cd: "card (set ids) = k + 1" using assms(4) by simp
  have "int k + 1 = int (card (set ids))" using cd by simp
  then have fails: "segment_argmax input ids = Inl AssertionFailed \<longleftrightarrow>
                 (\<Sum>g \<in> set ids. maximal_cells input ids g) \<noteq> card (set ids)"
    using segment_argmax_assertion[OF assms(1-3) nn ne] mx
    by (simp only: of_nat_eq_iff) metis
  show ?thesis
  proof (cases "m = 0")
    case True
    have "maximal_cells input ids g = 0" for g
    proof -
      have "\<forall>row \<in> set (segment_rows input ids g). row = []"
        using assms(2) True segment_rows_subset by fastforce
      then have "group_cells input ids g = []" by (simp add: group_cells_def)
      then show ?thesis by (simp add: maximal_cells_def)
    qed
    then show ?thesis using fails cd assms(4) by auto
  next
    case False
    then have "\<forall>g \<in> set ids. 1 \<le> maximal_cells input ids g"
      using maximal_cells_positive[OF assms(2,1)] by simp
    from sum_eq_card_iff[OF _ this] show ?thesis using fails assms(4) by auto
  qed
qed

theorem segment_argmax_ties_fail_witness:
  "segment_argmax [[5], [5], [7]] [0, 0, 1] = Inl AssertionFailed"
proof -
  let ?input = "[[5], [5], [7 :: real]]" and ?ids = "[0, 0, 1 :: int]"
  have a: "length ?input = length ?ids" "\<forall>row \<in> set ?input. length row = 1" "sorted ?ids"
    by simp_all
  have s: "set ?ids = {0..int 1}" by auto
  have "maximal_cells ?input ?ids 0 \<noteq> 1"
    by (simp add: maximal_cells_def group_cells_def segment_rows_def)
  then have "\<exists>g \<in> {0..int 1}. maximal_cells ?input ?ids g \<noteq> 1" by auto
  with segment_argmax_ties_fail[OF a s] show ?thesis by simp
qed

text \<open>
  With a gap in the ids a tie goes unnoticed: the ids \<open>[0, 0, 2]\<close> give
  \<open>max + 1 = 3\<close>, and the two tied cells of group \<open>0\<close> together with the cell of
  group \<open>2\<close> are three maximal cells, so the assertion passes and a result is
  produced.
\<close>

theorem segment_argmax_ties_counterexample:
  "segment_argmax [[5], [5], [7]] [0, 0, 2] = Inr (Vector [0, 1, 2], [0, 0, 0]) \<and>
   maximal_cells [[5], [5], [7]] [0, 0, 2] 0 = 2"
proof -
  have u: "[0..<3] = [0, 1, 2 :: nat]" by (simp add: upt_rec)
  show ?thesis
    by (simp add: segment_argmax_def tf_segment_max_def segment_ids_ok_def num_segments_def
        segment_rows_def tf_gather_def broadcast_cols_def broadcast_op_def reduce_max_int64_def
        cast_bool_int64_def tf_where_def tf_squeeze_def tf_gather_squeezed_def tf_argmax_axis1_def
        map_gathered_def first_max_def maximal_cells_def group_cells_def u Let_def)
qed

lemma first_max_flags:
  assumes "v \<in> set row"
  shows "first_max (map cast_bool_int64 (map (\<lambda>x. x = v) row))
         = int (length (takeWhile (\<lambda>x. x \<noteq> v) row))"
proof -
  let ?bs = "map cast_bool_int64 (map (\<lambda>x. x = v) row)"
  have ne: "?bs \<noteq> []" using assms by auto
  have one: "1 \<in> set ?bs" using assms by (auto simp: cast_bool_int64_def image_iff)
  have le: "\<forall>b \<in> set ?bs. b \<le> 1" by (auto simp: cast_bool_int64_def)
  have "fold max (tl ?bs) (hd ?bs) = Max (set ?bs)"
    using ne Max.set_eq_fold[of "hd ?bs" "tl ?bs"] by simp
  also have "\<dots> = 1" using one le by (intro Max_eqI) auto
  finally have mx: "fold max (tl ?bs) (hd ?bs) = 1" .
  have "takeWhile (\<lambda>b. b \<noteq> 1) ?bs
        = map (\<lambda>x. cast_bool_int64 (x = v)) (takeWhile (\<lambda>x. x \<noteq> v) row)"
    by (simp add: takeWhile_map comp_def cast_bool_int64_def)
  then show ?thesis unfolding first_max_def mx by simp
qed

lemma unique_selected_row:
  assumes len: "length rows = length ids" and one: "count_list (group_cells rows ids g) v = 1"
  shows "\<exists>i. i < length ids \<and> ids ! i = g \<and> count_list (rows ! i) v = 1 \<and>
           (\<forall>j. j < length ids \<and> ids ! j = g \<and> v \<in> set (rows ! j) \<longrightarrow> j = i)"
proof -
  let ?I = "{i. i < length ids \<and> ids ! i = g}"
  have fin: "finite ?I" by simp
  have "(\<Sum>i \<in> ?I. count_list (rows ! i) v) = 1"
    using one by (simp only: count_group_cells[OF len])
  then have "\<exists>a \<in> ?I. count_list (rows ! a) v = 1 \<and>
               (\<forall>b \<in> ?I. a \<noteq> b \<longrightarrow> count_list (rows ! b) v = 0)"
    by (simp only: sum_eq_1_iff[OF fin])
  then obtain i where i: "i \<in> ?I" and ci: "count_list (rows ! i) v = 1"
    and others: "\<forall>j \<in> ?I. i \<noteq> j \<longrightarrow> count_list (rows ! j) v = 0"
    by blast
  have "j = i" if j: "j < length ids \<and> ids ! j = g \<and> v \<in> set (rows ! j)" for j
  proof (rule ccontr)
    assume "j \<noteq> i"
    moreover have "j \<in> ?I" using j by simp
    ultimately have "count_list (rows ! j) v = 0" using others by metis
    then have "v \<notin> set (rows ! j)" using count_list_0_iff[of "rows ! j" v] by blast
    then show False using j by simp
  qed
  moreover have "i < length ids" "ids ! i = g" using i by simp_all
  ultimately show ?thesis using ci by blast
qed

lemma sorted_distinct_upto:
  assumes "sorted xs" and "distinct xs" and "set xs = {0..int k}"
  shows "xs = map int [0..<Suc k]"
proof -
  have "sorted_wrt (\<lambda>x y. int x \<le> int y) [0..<Suc k]"
    using sorted_upt[of 0 "Suc k"] by (simp only: of_nat_le_iff)
  then have "sorted (map int [0..<Suc k])" by (simp only: sorted_map)
  moreover have "distinct (map int [0..<Suc k])"
    by (simp only: distinct_map distinct_upt inj_on_def of_nat_eq_iff) simp
  moreover have "set (map int [0..<Suc k]) = {0..int k}"
  proof
    show "set (map int [0..<Suc k]) \<subseteq> {0..int k}" by auto
    show "{0..int k} \<subseteq> set (map int [0..<Suc k])"
    proof
      fix x assume "x \<in> {0..int k}"
      then have "nat x \<in> set [0..<Suc k]" "int (nat x) = x" by auto
      then show "x \<in> set (map int [0..<Suc k])" by (metis image_eqI set_map)
    qed
  qed
  ultimately show ?thesis
    using assms sorted_distinct_set_unique[of xs "map int [0..<Suc k]"] by (simp only:)
qed


lemma selected_rows_by_group:
  fixes ids :: "int list" and sel :: "nat list"
  assumes srt: "sorted ids" and dense: "set ids = {0..int k}"
    and sel: "sel = filter P [0..<length ids]"
    and ex: "\<forall>g \<in> {0..int k}. \<exists>i. i < length ids \<and> ids ! i = g \<and> P i \<and>
               (\<forall>j. j < length ids \<and> ids ! j = g \<and> P j \<longrightarrow> j = i)"
  shows "map (\<lambda>i. ids ! i) sel = map int [0..<Suc k]"
proof (rule sorted_distinct_upto)
  have mem: "i < length ids \<and> P i" if "i \<in> set sel" for i using that sel by simp
  have "sorted_wrt (<) sel" unfolding sel by (rule sorted_wrt_filter) simp
  then have "sorted_wrt (\<lambda>i j. ids ! i \<le> ids ! j) sel"
  proof (rule sorted_wrt_mono_rel[rotated])
    fix x y assume "x \<in> set sel" "y \<in> set sel" "x < y"
    then show "ids ! x \<le> ids ! y" using srt mem by (simp add: sorted_iff_nth_mono)
  qed
  then show "sorted (map (\<lambda>i. ids ! i) sel)" by (simp only: sorted_map)
  have "distinct sel" unfolding sel by simp
  moreover have "inj_on (\<lambda>i. ids ! i) (set sel)"
  proof (rule inj_onI)
    fix x y assume x: "x \<in> set sel" and y: "y \<in> set sel" and e: "ids ! x = ids ! y"
    have "ids ! x \<in> {0..int k}" using mem[OF x] dense by (metis nth_mem)
    with ex obtain i where "\<forall>j. j < length ids \<and> ids ! j = ids ! x \<and> P j \<longrightarrow> j = i" by blast
    then have "x = i" "y = i" using mem[OF x] mem[OF y] e by simp_all
    then show "x = y" by simp
  qed
  ultimately show "distinct (map (\<lambda>i. ids ! i) sel)" by (simp only: distinct_map)
  show "set (map (\<lambda>i. ids ! i) sel) = {0..int k}"
  proof
    show "set (map (\<lambda>i. ids ! i) sel) \<subseteq> {0..int k}"
    proof
      fix g assume "g \<in> set (map (\<lambda>i. ids ! i) sel)"
      then obtain i where "i \<in> set sel" "g = ids ! i" by auto
      then show "g \<in> {0..int k}" using mem dense by (metis nth_mem)
    qed
    show "{0..int k} \<subseteq> set (map (\<lambda>i. ids ! i) sel)"
    proof
      fix g assume "g \<in> {0..int k}"
      with ex obtain i where "i < length ids" "ids ! i = g" "P i" by blast
      then have "i \<in> set sel" using sel by simp
      then show "g \<in> set (map (\<lambda>i. ids ! i) sel)" using \<open>ids ! i = g\<close> by force
    qed
  qed
qed


lemma select_maxima_rows:
  fixes rows :: "real list list"
  assumes IM: "length IM = n"
    and cells: "\<forall>i < n. IM ! i = map (\<lambda>x. x = M i) (rows ! i)"
    and sel: "sel = filter (\<lambda>i. M i \<in> set (rows ! i)) [0..<n]"
    and many: "length sel \<noteq> 1"
  shows "select_maxima IM =
           Inr (Vector (map int sel),
                map (\<lambda>i. int (length (takeWhile (\<lambda>x. x \<noteq> M i) (rows ! i)))) sel)"
proof -
  have mem: "i < n \<and> M i \<in> set (rows ! i)" if "i \<in> set sel" for i using that sel by simp
  have flag: "map (list_ex (\<lambda>b. b)) IM ! i \<longleftrightarrow> M i \<in> set (rows ! i)" if "i < n" for i
    using that IM cells by (auto simp: list_ex_iff)
  have "filter (\<lambda>i. map (list_ex (\<lambda>b. b)) IM ! i) [0..<n] = sel"
    unfolding sel by (rule filter_cong) (simp_all add: flag)
  then have wh: "tf_where (map (list_ex (\<lambda>b. b)) IM) = map (\<lambda>i. [int i]) sel"
    using IM by (simp add: tf_where_def)
  have sq: "tf_squeeze (map (\<lambda>i. [int i]) sel) = Vector (map int sel)"
    using many by (simp add: tf_squeeze_def comp_def)
  have rng: "list_all (\<lambda>i. 0 \<le> i \<and> i < int (length IM)) (map int sel)"
    using mem IM by (auto simp: list_all_iff)
  have ga: "tf_gather_squeezed IM (Vector (map int sel)) = Inr (Matrix (map (\<lambda>i. IM ! i) sel))"
    using rng by (simp add: tf_gather_squeezed_def tf_gather_def comp_def)
  have rowi: "IM ! i = map (\<lambda>x. x = M i) (rows ! i)" if "i \<in> set sel" for i
    using mem[OF that] cells by simp
  have nonempty: "\<not> list_ex (\<lambda>r. r = []) (map (map cast_bool_int64) (map (\<lambda>i. IM ! i) sel))"
  proof -
    have "IM ! i \<noteq> []" if "i \<in> set sel" for i
      using rowi[OF that] mem[OF that] by auto
    then show ?thesis by (auto simp: list_ex_iff)
  qed
  have cols: "map first_max (map (map cast_bool_int64) (map (\<lambda>i. IM ! i) sel))
              = map (\<lambda>i. int (length (takeWhile (\<lambda>x. x \<noteq> M i) (rows ! i)))) sel"
  proof -
    have "first_max (map cast_bool_int64 (IM ! i))
          = int (length (takeWhile (\<lambda>x. x \<noteq> M i) (rows ! i)))" if "i \<in> set sel" for i
      using first_max_flags[of "M i" "rows ! i"] rowi[OF that] mem[OF that] by simp
    then show ?thesis by (simp add: comp_def)
  qed
  have am: "tf_argmax_axis1 (map_gathered cast_bool_int64 (Matrix (map (\<lambda>i. IM ! i) sel)))
            = Inr (map (\<lambda>i. int (length (takeWhile (\<lambda>x. x \<noteq> M i) (rows ! i)))) sel)"
    using nonempty cols by (simp add: tf_argmax_axis1_def map_gathered_def del: map_map)
  show ?thesis
    by (simp add: select_maxima_def Let_def wh sq ga am del: map_map)
qed


lemma first_occurrence:
  assumes "v \<in> set row"
  shows "length (takeWhile (\<lambda>x. x \<noteq> v) row) < length row \<and>
         row ! length (takeWhile (\<lambda>x. x \<noteq> v) row) = v"
proof -
  have "length (takeWhile (\<lambda>x. x \<noteq> v) row) \<noteq> length row"
  proof
    assume "length (takeWhile (\<lambda>x. x \<noteq> v) row) = length row"
    then have "takeWhile (\<lambda>x. x \<noteq> v) row = row"
      by (metis takeWhile_eq_take take_all order_refl)
    then have "\<forall>x \<in> set row. x \<noteq> v" by (simp only: takeWhile_eq_all_conv)
    with assms show False by blast
  qed
  then have lt: "length (takeWhile (\<lambda>x. x \<noteq> v) row) < length row"
    using length_takeWhile_le[of "\<lambda>x. x \<noteq> v" row] by linarith
  from nth_length_takeWhile[OF lt] show ?thesis using lt by simp
qed

text \<open>
  Claim C2, amended. For a matrix of shape \<open>[n, m]\<close> and a partition vector whose
  non-decreasing ids are exactly \<open>0, \<dots>, k\<close> with \<open>k \<ge> 1\<close> (at least two
  groups, no gap), such that in each group exactly one cell attains the group's
  maximum, \<open>segment_argmax\<close> returns a pair of vectors where, for each group \<open>g\<close>
  in increasing id order, \<open>row_indices[g]\<close> is the row of group \<open>g\<close> that holds
  its maximal cell and \<open>col_indices[g]\<close> the column of that cell in the row.
\<close>

theorem segment_argmax_unique_maxima:
  assumes "length input = length ids" and "\<forall>row \<in> set input. length row = m"
    and "sorted ids" and "set ids = {0..int k}" and "1 \<le> k"
    and "\<forall>g \<in> {0..int k}. maximal_cells input ids g = 1"
  shows "\<exists>rows cols. segment_argmax input ids = Inr (Vector rows, cols) \<and>
           length rows = Suc k \<and> length cols = Suc k \<and>
           (\<forall>g \<le> k. 0 \<le> rows ! g \<and> nat (rows ! g) < length input \<and>
                      ids ! nat (rows ! g) = int g \<and>
                      0 \<le> cols ! g \<and> nat (cols ! g) < m \<and>
                      input ! nat (rows ! g) ! nat (cols ! g) =
                        Max (set (group_cells input ids (int g))))"
proof -
  note len = assms(1) and rect = assms(2) and srt = assms(3) and dense = assms(4)
    and uniq = assms(6)
  define Mg where "Mg g = row_max (segment_rows (map row_max input) ids g)" for g
  define sel where "sel = filter (\<lambda>i. Mg (ids ! i) \<in> set (input ! i)) [0..<length ids]"
  have nn: "\<forall>g \<in> set ids. 0 \<le> g" using dense by simp
  have ne: "ids \<noteq> []" using dense by auto
  have "Max {0..int k} = int k" by (intro Max_eqI) simp_all
  then have mx: "Max (set ids) = int k" using dense by simp
  have "0 \<le> Max (set ids)" using mx by simp
  then have rm: "reduce_max_int64 ids = int k"
    using reduce_max_int64_Max[OF ne] mx by simp
  have "(\<Sum>g \<in> set ids. maximal_cells input ids g) = card (set ids)"
    using uniq dense by simp
  also have "\<dots> = Suc k" using dense by simp
  finally have total: "(\<Sum>g \<in> set ids. maximal_cells input ids g) = Suc k" .
  have run: "segment_argmax input ids = select_maxima (is_max_cells input ids)"
    using segment_argmax_unfold[OF len rect srt nn] rm total by simp
  have mpos: "0 < m"
  proof (rule ccontr)
    assume "\<not> 0 < m"
    then have "\<forall>row \<in> set (segment_rows input ids 0). row = []"
      using rect segment_rows_subset by fastforce
    then have "group_cells input ids 0 = []" by (simp add: group_cells_def)
    then have "maximal_cells input ids 0 = 0" by (simp add: maximal_cells_def)
    moreover have "maximal_cells input ids 0 = 1" using uniq by simp
    ultimately show False by simp
  qed
  have rows_ne: "\<forall>r \<in> set input. r \<noteq> []" using rect mpos by auto
  have gmax: "Mg g = Max (set (group_cells input ids g))" if g: "g \<in> set ids" for g
  proof -
    from g obtain i where i: "i < length ids" "ids ! i = g" by (metis in_set_conv_nth)
    have "segment_rows input ids g \<noteq> []"
      using segment_rows_member[OF len i(1)] i(2) by auto
    from group_max_cells[OF rows_ne this] show ?thesis by (simp add: Mg_def)
  qed
  have ex: "\<forall>g \<in> {0..int k}. \<exists>i. i < length ids \<and> ids ! i = g \<and> Mg (ids ! i) \<in> set (input ! i) \<and>
               (\<forall>j. j < length ids \<and> ids ! j = g \<and> Mg (ids ! j) \<in> set (input ! j) \<longrightarrow> j = i)"
  proof
    fix g assume g: "g \<in> {0..int k}"
    then have gs: "g \<in> set ids" using dense by simp
    have "count_list (group_cells input ids g) (Mg g) = 1"
      using uniq g gmax[OF gs] by (simp add: maximal_cells_def)
    from unique_selected_row[OF len this] obtain i where
      i: "i < length ids" "ids ! i = g" "count_list (input ! i) (Mg g) = 1"
      and u: "\<forall>j. j < length ids \<and> ids ! j = g \<and> Mg g \<in> set (input ! j) \<longrightarrow> j = i"
      by blast
    have "Mg g \<in> set (input ! i)"
      using i(3) count_list_0_iff[of "input ! i" "Mg g"] by auto
    then show "\<exists>i. i < length ids \<and> ids ! i = g \<and> Mg (ids ! i) \<in> set (input ! i) \<and>
               (\<forall>j. j < length ids \<and> ids ! j = g \<and> Mg (ids ! j) \<in> set (input ! j) \<longrightarrow> j = i)"
      using i(1,2) u by auto
  qed
  have groups: "map (\<lambda>i. ids ! i) sel = map int [0..<Suc k]"
    by (rule selected_rows_by_group[OF srt dense sel_def ex])
  then have "length (map (\<lambda>i. ids ! i) sel) = length (map int [0..<Suc k])" by simp
  then have lsel: "length sel = Suc k" by simp
  then have many: "length sel \<noteq> 1" using assms(5) by simp
  have lim: "length (is_max_cells input ids) = length ids"
    using len by (simp add: is_max_cells_def)
  have cells: "\<forall>i < length ids. is_max_cells input ids ! i
                 = map (\<lambda>x. x = Mg (ids ! i)) (input ! i)"
    using len by (simp add: is_max_cells_def Mg_def)
  let ?rows = "map int sel"
  let ?cols = "map (\<lambda>i. int (length (takeWhile (\<lambda>x. x \<noteq> Mg (ids ! i)) (input ! i)))) sel"
  have res: "segment_argmax input ids = Inr (Vector ?rows, ?cols)"
    unfolding run by (rule select_maxima_rows[OF lim cells sel_def many])
  have per_group: "0 \<le> ?rows ! g \<and> nat (?rows ! g) < length input \<and>
                      ids ! nat (?rows ! g) = int g \<and>
                      0 \<le> ?cols ! g \<and> nat (?cols ! g) < m \<and>
                      input ! nat (?rows ! g) ! nat (?cols ! g) =
                        Max (set (group_cells input ids (int g)))" if g: "g \<le> k" for g
  proof -
    have gl: "g < length sel" using g lsel by simp
    then have "sel ! g \<in> set sel" by simp
    then have r: "sel ! g < length ids" "Mg (ids ! (sel ! g)) \<in> set (input ! (sel ! g))"
      by (simp_all add: sel_def)
    have "map (\<lambda>i. ids ! i) sel ! g = map int [0..<Suc k] ! g" using groups by simp
    then have idg: "ids ! (sel ! g) = int g" using gl g by (simp del: upt_Suc)
    have "int g \<in> set ids" using dense g by simp
    then have mg: "Mg (int g) = Max (set (group_cells input ids (int g)))" by (rule gmax)
    have lr: "length (input ! (sel ! g)) = m" using rect r(1) len by simp
    from first_occurrence[OF r(2)] lr idg mg
    have "length (takeWhile (\<lambda>x. x \<noteq> Mg (int g)) (input ! (sel ! g))) < m"
      "input ! (sel ! g) ! length (takeWhile (\<lambda>x. x \<noteq> Mg (int g)) (input ! (sel ! g)))
         = Max (set (group_cells input ids (int g)))"
      by simp_all
    then show ?thesis using gl r(1) len idg by simp
  qed
  have final: "segment_argmax input ids = Inr (Vector ?rows, ?cols) \<and>
           length ?rows = Suc k \<and> length ?cols = Suc k \<and>
           (\<forall>g \<le> k. 0 \<le> ?rows ! g \<and> nat (?rows ! g) < length input \<and>
                      ids ! nat (?rows ! g) = int g \<and>
                      0 \<le> ?cols ! g \<and> nat (?cols ! g) < m \<and>
                      input ! nat (?rows ! g) ! nat (?cols ! g) =
                        Max (set (group_cells input ids (int g))))"
  proof (intro conjI allI impI)
    show "segment_argmax input ids = Inr (Vector ?rows, ?cols)" by (rule res)
    show "length ?rows = Suc k" using lsel by simp
    show "length ?cols = Suc k" using lsel by simp
  qed (use per_group in blast)+
  show ?thesis
    by (rule exI[of _ ?rows], rule exI[of _ ?cols], rule final)
qed


theorem segment_argmax_unique_maxima_witness:
  "\<exists>rows cols. segment_argmax [[1, 2], [3, 0], [7, 9]] [0, 0, 1] = Inr (Vector rows, cols) \<and>
     length rows = 2 \<and> length cols = 2 \<and>
     [0, 0, 1 :: int] ! nat (rows ! 0) = 0 \<and>
     [[1, 2], [3, 0], [7, 9 :: real]] ! nat (rows ! 0) ! nat (cols ! 0) = 3 \<and>
     [0, 0, 1 :: int] ! nat (rows ! 1) = 1 \<and>
     [[1, 2], [3, 0], [7, 9 :: real]] ! nat (rows ! 1) ! nat (cols ! 1) = 9"
proof -
  let ?input = "[[1, 2], [3, 0], [7, 9 :: real]]" and ?ids = "[0, 0, 1 :: int]"
  have a: "length ?input = length ?ids" "\<forall>row \<in> set ?input. length row = 2" "sorted ?ids"
    by simp_all
  have s: "set ?ids = {0..int 1}" by auto
  have k: "(1 :: nat) \<le> 1" by simp
  have m0: "maximal_cells ?input ?ids 0 = 1" and m1: "maximal_cells ?input ?ids 1 = 1"
    by (simp_all add: maximal_cells_def group_cells_def segment_rows_def)
  have u: "\<forall>g \<in> {0..int 1}. maximal_cells ?input ?ids g = 1"
  proof
    fix g :: int assume "g \<in> {0..int 1}"
    then have "g = 0 \<or> g = 1" by auto
    then show "maximal_cells ?input ?ids g = 1" using m0 m1 by auto
  qed
  from segment_argmax_unique_maxima[OF a s k u] obtain rows cols where
    r: "segment_argmax ?input ?ids = Inr (Vector rows, cols)" "length rows = Suc 1"
      "length cols = Suc 1"
    and q: "\<forall>g \<le> 1. 0 \<le> rows ! g \<and> nat (rows ! g) < length ?input \<and>
                      ?ids ! nat (rows ! g) = int g \<and>
                      0 \<le> cols ! g \<and> nat (cols ! g) < 2 \<and>
                      ?input ! nat (rows ! g) ! nat (cols ! g) =
                        Max (set (group_cells ?input ?ids (int g)))"
    by blast
  have g0: "group_cells ?input ?ids (int 0) = [1, 2, 3, 0]"
    and g1: "group_cells ?input ?ids (int 1) = [7, 9]"
    by (simp_all add: group_cells_def segment_rows_def)
  have le: "(0 :: nat) \<le> 1" "(1 :: nat) \<le> 1" by simp_all
  have "?ids ! nat (rows ! 0) = int 0"
    "?input ! nat (rows ! 0) ! nat (cols ! 0) = Max (set (group_cells ?input ?ids (int 0)))"
    using q le(1) by blast+
  moreover have "?ids ! nat (rows ! 1) = int 1"
    "?input ! nat (rows ! 1) ! nat (cols ! 1) = Max (set (group_cells ?input ?ids (int 1)))"
    using q le(2) by blast+
  ultimately have "?ids ! nat (rows ! 0) = 0" "?input ! nat (rows ! 0) ! nat (cols ! 0) = 3"
    "?ids ! nat (rows ! 1) = 1" "?input ! nat (rows ! 1) ! nat (cols ! 1) = 9"
    unfolding g0 g1 by simp_all
  then show ?thesis using r by auto
qed

text \<open>
  Adjacent equal ids and one maximal cell per group do not suffice: with the ids
  \<open>[0, 2]\<close> the two maximal cells are compared with \<open>max + 1 = 3\<close> and the
  assertion fails.
\<close>

theorem segment_argmax_unique_maxima_counterexample:
  "segment_argmax [[1], [2]] [0, 2] = Inl AssertionFailed \<and>
   maximal_cells [[1], [2]] [0, 2] 0 = 1 \<and> maximal_cells [[1], [2]] [0, 2] 2 = 1"
  by (simp add: segment_argmax_def tf_segment_max_def segment_ids_ok_def num_segments_def
      segment_rows_def tf_gather_def broadcast_cols_def broadcast_op_def reduce_max_int64_def
      cast_bool_int64_def maximal_cells_def group_cells_def Let_def)

text \<open>
  With a single group \<^verbatim>\<open>tf.where\<close> yields a \<open>[1, 1]\<close> matrix, which
  \<^verbatim>\<open>tf.squeeze\<close> turns into a scalar; the gather then yields one row, and
  \<^verbatim>\<open>tf.argmax(..., axis=1)\<close> rejects it.
\<close>

lemma segment_argmax_single_group:
  "segment_argmax [[1, 2], [3, 4]] [0, 0] = Inl InvalidArgument"
  by (simp add: segment_argmax_def tf_segment_max_def segment_ids_ok_def num_segments_def
      segment_rows_def tf_gather_def broadcast_cols_def broadcast_op_def reduce_max_int64_def
      cast_bool_int64_def tf_where_def tf_squeeze_def tf_gather_squeezed_def tf_argmax_axis1_def
      map_gathered_def Let_def)

end
